theory Spec2Isabelle
  imports Main "HOL-Library.Sublist" "HOL-Library.AList"
begin

text \<open>
  A shallow embedding of the prompt template server (\<^verbatim>\<open>src/index.ts\<close> and
  \<^verbatim>\<open>src/db/schema.ts\<close>): the placeholder extraction, the render loop, the store with
  its two tables, the prompt catalog, the bootstrap and the tools that save, update,
  delete and render templates. Definitions come first, then the properties.
\<close>

section \<open>Placeholder extraction\<close>

text \<open>
  The source scans a template with the global regular expression
  \<^verbatim>\<open>/\{([^}]+)\}/g\<close> and collects group 1 of every match in a JavaScript
  \<^verbatim>\<open>Set\<close>, which keeps its elements in insertion order:
  \<^verbatim>\<open>
  function extractInputs(template: string): string[] {
    const regex = /\{([^}]+)\}/g;
    const inputs = new Set<string>();
    let match;
    while ((match = regex.exec(template)) !== null) {
      inputs.add(match[1]);
    }
    return Array.from(inputs);
  }
  \<close>
  Strings are lists of characters. \<open>match_here\<close> is one attempt of the pattern at the
  head of the text: an opening brace, the longest run of characters other than the
  closing brace (the greedy \<^verbatim>\<open>[^}]+\<close>), which must not be empty, and a closing
  brace. A shorter run is always followed by a character of the run, never by the
  closing brace, so backtracking into the run cannot succeed and is left out.
\<close>

definition not_close :: "char \<Rightarrow> bool" where
  "not_close c = (c \<noteq> CHR ''}'')"

fun match_here :: "string \<Rightarrow> (string \<times> string) option" where
  "match_here [] = None"
| "match_here (c # r) =
     (if c = CHR ''{'' then
        (let g = takeWhile not_close r; rest = dropWhile not_close r
         in if g = [] then None
            else if rest = [] then None
            else Some (g, tl rest))
      else None)"

lemma match_here_shorter:
  "match_here s = Some (g, rest) \<Longrightarrow> length rest < length s"
proof (cases s)
  case Nil
  assume "match_here s = Some (g, rest)"
  with Nil show ?thesis by simp
next
  case (Cons c r)
  assume m: "match_here s = Some (g, rest)"
  have "length (dropWhile not_close r) \<le> length r"
    by (rule length_dropWhile_le)
  moreover from m Cons have "rest = tl (dropWhile not_close r)"
    by (auto simp: Let_def split: if_splits)
  ultimately show ?thesis using Cons by simp
qed

text \<open>
  The \<^verbatim>\<open>exec\<close> loop: a match at the current position yields its group and
  moves \<^verbatim>\<open>lastIndex\<close> behind the match; otherwise the search moves one character
  on. The loop ends at the end of the text.
\<close>

function regex_exec_all :: "string \<Rightarrow> string list" where
  "regex_exec_all s =
     (case match_here s of
        Some (g, rest) \<Rightarrow> g # regex_exec_all rest
      | None \<Rightarrow> (case s of [] \<Rightarrow> [] | c # cs \<Rightarrow> regex_exec_all cs))"
  by pat_completeness auto
termination
  by (relation "measure length") (auto dest: match_here_shorter)

declare regex_exec_all.simps [simp del]

text \<open>\<^verbatim>\<open>Set.prototype.add\<close>: a new element goes to the end, a known one changes nothing.\<close>

definition set_add :: "string list \<Rightarrow> string \<Rightarrow> string list" where
  "set_add xs x = (if x \<in> set xs then xs else xs @ [x])"

definition extractInputs :: "string \<Rightarrow> string list" where
  "extractInputs template = foldl set_add [] (regex_exec_all template)"

section \<open>Rendering\<close>

text \<open>
  Every render site of the source (the tool \<^verbatim>\<open>get_prompt_by_name\<close> and the three
  prompt closures) runs the same loop:
  \<^verbatim>\<open>
  let renderedTemplate = template.template;
  for (const [key, value] of Object.entries(inputs)) {
    renderedTemplate = renderedTemplate.replace(new RegExp(`\\{${key}\\}`, 'g'), value);
  }
  \<close>
  The key is pasted into the pattern unescaped. A key without syntax characters of the
  pattern language gives a pattern that matches exactly the text of an opening brace, the
  key and a closing brace. This development covers those keys; for any other key the
  pattern is another language or \<^verbatim>\<open>new RegExp\<close> throws, and the model answers
  \<open>None\<close>: nothing is stated about such a call.
\<close>

definition regex_syntax_chars :: "char list" where
  "regex_syntax_chars =
     [CHR 0x5C, CHR ''^'', CHR ''$'', CHR ''.'', CHR ''*'', CHR ''+'', CHR ''?'',
      CHR ''('', CHR '')'', CHR ''['', CHR '']'', CHR ''{'', CHR ''}'', CHR ''|'']"

definition plain_char :: "char \<Rightarrow> bool" where
  "plain_char c = (c \<notin> set regex_syntax_chars)"

definition plain_key :: "string \<Rightarrow> bool" where
  "plain_key key = list_all plain_char key"

definition placeholder :: "string \<Rightarrow> string" where
  "placeholder key = CHR ''{'' # key @ [CHR ''}'']"

text \<open>
  The second argument of \<^verbatim>\<open>String.prototype.replace\<close> is a replacement pattern. With
  a pattern that has no capture group, the language's \<^verbatim>\<open>GetSubstitution\<close> expands
  a dollar sign followed by a dollar sign to one dollar sign, by an ampersand to the
  matched text, by a backquote to the text before the match, by an apostrophe to the
  text after the match, and copies everything else.
\<close>

fun get_substitution :: "string \<Rightarrow> string \<Rightarrow> string \<Rightarrow> string \<Rightarrow> string" where
  "get_substitution matched left right [] = []"
| "get_substitution matched left right [c] = [c]"
| "get_substitution matched left right (c # d # r) =
     (if c = CHR ''$'' then
        (if d = CHR ''$'' then CHR ''$'' # get_substitution matched left right r
         else if d = CHR ''&'' then matched @ get_substitution matched left right r
         else if d = CHR 0x60 then left @ get_substitution matched left right r
         else if d = CHR 0x27 then right @ get_substitution matched left right r
         else c # get_substitution matched left right (d # r))
      else c # get_substitution matched left right (d # r))"

text \<open>
  A global replace finds the matches in the text it was called on, from left to right
  and without overlap, and builds the result from the unmatched stretches and the
  expanded replacements. \<open>pre\<close> is the part of the original text already passed. The
  pattern is never empty: it holds both braces.
\<close>

function replace_all_matches :: "string \<Rightarrow> string \<Rightarrow> string \<Rightarrow> string \<Rightarrow> string" where
  "replace_all_matches pat v pre [] = []"
| "replace_all_matches pat v pre (c # cs) =
     (if pat \<noteq> [] \<and> prefix pat (c # cs) then
        get_substitution pat pre (drop (length pat) (c # cs)) v
        @ replace_all_matches pat v (pre @ pat) (drop (length pat) (c # cs))
      else c # replace_all_matches pat v (pre @ [c]) cs)"
  by pat_completeness auto
termination
  by (relation "measure (\<lambda>(pat, v, pre, s). length s)") auto

definition replace_key :: "string \<Rightarrow> string \<Rightarrow> string \<Rightarrow> string option" where
  "replace_key key v txt =
     (if plain_key key then Some (replace_all_matches (placeholder key) v [] txt) else None)"

text \<open>
  The loop over \<^verbatim>\<open>Object.entries(inputs)\<close>. An object of string values is the
  list of its own properties in the order \<^verbatim>\<open>Object.entries\<close> yields them.
\<close>

type_synonym js_record = "(string \<times> string) list"

fun render :: "string \<Rightarrow> js_record \<Rightarrow> string option" where
  "render renderedTemplate [] = Some renderedTemplate"
| "render renderedTemplate ((key, v) # entries) =
     (case replace_key key v renderedTemplate of
        None \<Rightarrow> None
      | Some t \<Rightarrow> render t entries)"

text \<open>
  \<^verbatim>\<open>inputs[input.name]\<close> is a property read: an own property if there is one,
  else a property inherited from \<^verbatim>\<open>Object.prototype\<close> (a function, or the prototype
  object itself), else \<^verbatim>\<open>undefined\<close>. The handler's default \<^verbatim>\<open>inputs = {}\<close> is an
  ordinary object literal, and so is the record the argument parser builds.
\<close>

definition object_prototype_names :: "string list" where
  "object_prototype_names =
     [''constructor'', ''__defineGetter__'', ''__defineSetter__'', ''hasOwnProperty'',
      ''__lookupGetter__'', ''__lookupSetter__'', ''isPrototypeOf'',
      ''propertyIsEnumerable'', ''toString'', ''valueOf'', ''__proto__'',
      ''toLocaleString'']"

datatype js_value = Undefined | Str string | Inherited

definition get_property :: "js_record \<Rightarrow> string \<Rightarrow> js_value" where
  "get_property obj k =
     (case map_of obj k of
        Some v \<Rightarrow> Str v
      | None \<Rightarrow> if k \<in> set object_prototype_names then Inherited else Undefined)"

fun truthy :: "js_value \<Rightarrow> bool" where
  "truthy Undefined = False"
| "truthy (Str v) = (v \<noteq> [])"
| "truthy Inherited = True"

section \<open>The store\<close>

text \<open>
  The two tables of \<^verbatim>\<open>db/schema.ts\<close>, rows in table order. Identifiers come from
  \<^verbatim>\<open>crypto.randomUUID()\<close> and timestamps from \<^verbatim>\<open>CURRENT_TIMESTAMP\<close>; both are
  parameters of the operations that insert. The primary keys are unique, and deleting a
  template deletes its inputs (\<^verbatim>\<open>onDelete: "cascade"\<close>). Input and output failures
  of the store are not modelled.
\<close>

record prompt_template =
  t_id :: string
  t_name :: string
  t_description :: "string option"
  t_template :: string
  t_createdAt :: string
  t_updatedAt :: string

record prompt_input =
  i_id :: string
  i_templateId :: string
  i_name :: string
  i_description :: "string option"
  i_required :: bool
  i_createdAt :: string

record database =
  promptTemplates :: "prompt_template list"
  promptInputs :: "prompt_input list"

definition select_template_by_id :: "database \<Rightarrow> string \<Rightarrow> prompt_template option" where
  "select_template_by_id db tid = find (\<lambda>t. t_id t = tid) (promptTemplates db)"

definition select_template_by_name :: "database \<Rightarrow> string \<Rightarrow> prompt_template option" where
  "select_template_by_name db n = find (\<lambda>t. t_name t = n) (promptTemplates db)"

definition select_inputs :: "database \<Rightarrow> string \<Rightarrow> prompt_input list" where
  "select_inputs db tid = filter (\<lambda>i. i_templateId i = tid) (promptInputs db)"

definition insert_template :: "database \<Rightarrow> prompt_template \<Rightarrow> string + database" where
  "insert_template db row =
     (if t_id row \<in> set (map t_id (promptTemplates db))
      then Inl ''UNIQUE constraint failed: prompt_templates.id''
      else Inr (db\<lparr>promptTemplates := promptTemplates db @ [row]\<rparr>))"

definition insert_inputs :: "database \<Rightarrow> prompt_input list \<Rightarrow> string + database" where
  "insert_inputs db rows =
     (if distinct (map i_id rows)
         \<and> list_all (\<lambda>r. i_id r \<notin> set (map i_id (promptInputs db))) rows
      then Inr (db\<lparr>promptInputs := promptInputs db @ rows\<rparr>)
      else Inl ''UNIQUE constraint failed: prompt_inputs.id'')"

definition new_inputs ::
  "(nat \<Rightarrow> string) \<Rightarrow> string \<Rightarrow> string \<Rightarrow> string list \<Rightarrow> prompt_input list" where
  "new_inputs uuid now tid inputNames =
     map (\<lambda>(k, inputName).
            \<lparr>i_id = uuid (Suc k), i_templateId = tid, i_name = inputName,
             i_description = None, i_required = True, i_createdAt = now\<rparr>)
         (enumerate 0 inputNames)"

definition delete_inputs :: "database \<Rightarrow> string \<Rightarrow> database" where
  "delete_inputs db tid =
     db\<lparr>promptInputs := filter (\<lambda>i. i_templateId i \<noteq> tid) (promptInputs db)\<rparr>"

definition delete_template :: "database \<Rightarrow> string \<Rightarrow> database" where
  "delete_template db tid =
     \<lparr>promptTemplates = filter (\<lambda>t. t_id t \<noteq> tid) (promptTemplates db),
      promptInputs = filter (\<lambda>i. i_templateId i \<noteq> tid) (promptInputs db)\<rparr>"

text \<open>
  \<^verbatim>\<open>db.update(...).set(updateData)\<close>: only the fields present in
  \<^verbatim>\<open>updateData\<close> are written. The handler puts the name, the description and the
  template there, each when supplied, and nothing else.
\<close>

definition apply_update ::
  "string option \<Rightarrow> string option \<Rightarrow> string option \<Rightarrow> prompt_template \<Rightarrow> prompt_template" where
  "apply_update name description template row =
     row\<lparr>t_name := (case name of None \<Rightarrow> t_name row | Some n \<Rightarrow> n),
         t_description := (case description of None \<Rightarrow> t_description row | Some d \<Rightarrow> Some d),
         t_template := (case template of None \<Rightarrow> t_template row | Some b \<Rightarrow> b)\<rparr>"

definition update_template ::
  "database \<Rightarrow> string \<Rightarrow> string option \<Rightarrow> string option \<Rightarrow> string option \<Rightarrow> database" where
  "update_template db tid name description template =
     db\<lparr>promptTemplates :=
          map (\<lambda>t. if t_id t = tid then apply_update name description template t else t)
              (promptTemplates db)\<rparr>"

text \<open>
  The foreign key of the schema (\<^verbatim>\<open>references(() => promptTemplates.id)\<close>): every input
  row refers to a stored template.
\<close>

definition references_ok :: "database \<Rightarrow> bool" where
  "references_ok db =
     list_all (\<lambda>i. i_templateId i \<in> set (map t_id (promptTemplates db))) (promptInputs db)"

section \<open>The catalog\<close>

text \<open>
  The catalog is the prompt registry of the protocol server object, a dependency of the
  repository. A registration holds what the source passes to \<^verbatim>\<open>server.prompt\<close>: the
  argument schema (per name a description and whether the argument is optional) and what
  the closure captures (the description it returns and the template text).
\<close>

record registered_prompt =
  p_arguments :: "(string \<times> string \<times> bool) list"
  p_description :: string
  p_template :: string

type_synonym catalog = "(string \<times> registered_prompt) list"

text \<open>
  Whether a call of the registry throws is a parameter: for each of the two calls, the
  message of the exception in a given catalog state, if any.
\<close>

record sdk =
  prompt_throws :: "catalog \<Rightarrow> string \<Rightarrow> string option"
  removePrompt_throws :: "catalog \<Rightarrow> string \<Rightarrow> string option"

text \<open>
  Modelled from the spec: the registry's \<^verbatim>\<open>prompt\<close> and \<^verbatim>\<open>removePrompt\<close> are
  not in the repository. Section 4.5 of the specification gives their contract:
  registering an existing name replaces it in place, unregistering removes the name.
\<close>

definition server_prompt ::
  "sdk \<Rightarrow> string \<Rightarrow> registered_prompt \<Rightarrow> catalog \<Rightarrow> string + catalog" where
  "server_prompt k name p cat =
     (case prompt_throws k cat name of
        Some e \<Rightarrow> Inl e
      | None \<Rightarrow> Inr (AList.update name p cat))"

definition server_removePrompt :: "sdk \<Rightarrow> string \<Rightarrow> catalog \<Rightarrow> string + catalog" where
  "server_removePrompt k name cat =
     (case removePrompt_throws k cat name of
        Some e \<Rightarrow> Inl e
      | None \<Rightarrow> Inr (AList.delete name cat))"

text \<open>
  The argument schema:
  \<^verbatim>\<open>
  const argumentSchema: any = {};
  for (const input of inputs) {
    argumentSchema[input.name] = z.string().describe(input.description || `Input for ${input.name}`);
    if (!input.required) {
      argumentSchema[input.name] = argumentSchema[input.name].optional();
    }
  }
  \<close>
\<close>

definition describe_input :: "prompt_input \<Rightarrow> string" where
  "describe_input i =
     (case i_description i of
        None \<Rightarrow> ''Input for '' @ i_name i
      | Some d \<Rightarrow> if d = [] then ''Input for '' @ i_name i else d)"

definition argumentSchema :: "prompt_input list \<Rightarrow> (string \<times> string \<times> bool) list" where
  "argumentSchema inputs =
     foldl (\<lambda>m i. AList.update (i_name i) (describe_input i, \<not> i_required i) m) [] inputs"

definition registration :: "prompt_template \<Rightarrow> prompt_input list \<Rightarrow> registered_prompt" where
  "registration t inputs =
     \<lparr>p_arguments = argumentSchema inputs,
      p_description =
        (case t_description t of
           None \<Rightarrow> ''Prompt template: '' @ t_name t
         | Some d \<Rightarrow> if d = [] then ''Prompt template: '' @ t_name t else d),
      p_template = t_template t\<rparr>"

text \<open>The closure registered with a prompt: its description and the rendered text.\<close>

definition prompt_callback :: "registered_prompt \<Rightarrow> js_record \<Rightarrow> (string \<times> string) option" where
  "prompt_callback p args =
     (case render (p_template p) args of
        None \<Rightarrow> None
      | Some renderedTemplate \<Rightarrow> Some (p_description p, renderedTemplate))"

text \<open>
  Bootstrap. One \<^verbatim>\<open>try\<close> encloses the whole loop, and its handler logs:
  \<^verbatim>\<open>
  async function loadAndRegisterPrompts() {
    try {
      const templates = await db.select().from(schema.promptTemplates);
      for (const template of templates) {
        const inputs = await db.select() ... .where(eq(schema.promptInputs.templateId, template.id));
        ...
        server.prompt(template.name, argumentSchema, async (args: any) => { ... });
      }
    } catch (error) {
      console.error("Error loading prompts:", error);
    }
  }
  \<close>
  The result is the catalog and the lines logged.
\<close>

fun register_templates ::
  "sdk \<Rightarrow> database \<Rightarrow> prompt_template list \<Rightarrow> catalog \<Rightarrow> catalog \<times> string list" where
  "register_templates k db [] cat = (cat, [])"
| "register_templates k db (t # ts) cat =
     (case server_prompt k (t_name t) (registration t (select_inputs db (t_id t))) cat of
        Inl e \<Rightarrow> (cat, [''Error loading prompts: '' @ e])
      | Inr cat' \<Rightarrow> register_templates k db ts cat')"

definition loadAndRegisterPrompts :: "sdk \<Rightarrow> database \<Rightarrow> catalog \<Rightarrow> catalog \<times> string list" where
  "loadAndRegisterPrompts k db cat = register_templates k db (promptTemplates db) cat"

section \<open>The tools\<close>

record tool_result =
  r_text :: string
  r_isError :: bool

definition ok_result :: "string \<Rightarrow> tool_result" where
  "ok_result s = \<lparr>r_text = s, r_isError = False\<rparr>"

definition error_result :: "string \<Rightarrow> tool_result" where
  "error_result s = \<lparr>r_text = s, r_isError = True\<rparr>"

definition quoted :: "string \<Rightarrow> string" where
  "quoted s = CHR 0x22 # s @ [CHR 0x22]"

fun join :: "string list \<Rightarrow> string" where
  "join [] = []"
| "join [x] = x"
| "join (x # y # ys) = x @ '', '' @ join (y # ys)"

function show_nat :: "nat \<Rightarrow> string" where
  "show_nat n =
     (if n < 10 then [char_of (48 + n)]
      else show_nat (n div 10) @ [char_of (48 + n mod 10)])"
  by pat_completeness auto
termination
  by (relation "measure id") auto

declare show_nat.simps [simp del]

text \<open>
  \<^verbatim>\<open>save_prompt_template\<close>: extract the inputs, insert the template, insert one
  required input per name, read the inputs back, register the prompt. Any exception
  ends in the handler's \<^verbatim>\<open>catch\<close>, which answers with the error flag; what the
  store already holds stays.
\<close>

definition save_prompt_template ::
  "sdk \<Rightarrow> (nat \<Rightarrow> string) \<Rightarrow> string \<Rightarrow> string \<Rightarrow> string option \<Rightarrow> string
   \<Rightarrow> database \<times> catalog \<Rightarrow> tool_result \<times> database \<times> catalog" where
  "save_prompt_template k uuid now name description template st =
     (let db = fst st; cat = snd st;
          inputNames = extractInputs template;
          savedTemplate =
            \<lparr>t_id = uuid 0, t_name = name, t_description = description,
             t_template = template, t_createdAt = now, t_updatedAt = now\<rparr>
      in case insert_template db savedTemplate of
           Inl e \<Rightarrow> (error_result (''Error saving prompt template: '' @ e), db, cat)
         | Inr db1 \<Rightarrow>
            (case (if inputNames \<noteq> []
                   then insert_inputs db1 (new_inputs uuid now (t_id savedTemplate) inputNames)
                   else Inr db1) of
               Inl e \<Rightarrow> (error_result (''Error saving prompt template: '' @ e), db1, cat)
             | Inr db2 \<Rightarrow>
                (case server_prompt k (t_name savedTemplate)
                        (registration savedTemplate (select_inputs db2 (t_id savedTemplate))) cat of
                   Inl e \<Rightarrow> (error_result (''Error saving prompt template: '' @ e), db2, cat)
                 | Inr cat' \<Rightarrow>
                    (ok_result
                       (''Successfully saved prompt template '' @ quoted name @ '' with ''
                        @ show_nat (length inputNames) @ '' input parameters: ''
                        @ join inputNames
                        @ ''. The prompt is now available in the prompts list.''),
                     db2, cat'))))"

text \<open>
  \<^verbatim>\<open>update_prompt_template\<close>: look the template up by id; answer not found if it
  is absent; write the supplied fields; when a template text is supplied, delete the
  inputs of the template and insert those of the new text; register the prompt again.
  An update that supplies no field makes the query builder throw.
\<close>

definition not_found_id :: "string \<Rightarrow> tool_result" where
  "not_found_id tid = error_result (''Template with ID '' @ quoted tid @ '' not found'')"

text \<open>
  The block run when a template text is supplied:
  \<^verbatim>\<open>
  await db.delete(schema.promptInputs).where(eq(schema.promptInputs.templateId, id));
  const inputNames = extractInputs(template);
  if (inputNames.length > 0) {
    await db.insert(schema.promptInputs).values(inputNames.map(inputName => ({
      templateId: id, name: inputName, required: true })));
  }
  \<close>
  A failing insert leaves the store with the old inputs deleted.
\<close>

definition replace_inputs ::
  "(nat \<Rightarrow> string) \<Rightarrow> string \<Rightarrow> database \<Rightarrow> string \<Rightarrow> string
   \<Rightarrow> (string \<times> database) + database" where
  "replace_inputs uuid now db tid body =
     (let db2 = delete_inputs db tid; inputNames = extractInputs body
      in if inputNames \<noteq> []
         then (case insert_inputs db2 (new_inputs uuid now tid inputNames) of
                 Inl e \<Rightarrow> Inl (e, db2)
               | Inr db3 \<Rightarrow> Inr db3)
         else Inr db2)"

definition update_prompt_template ::
  "sdk \<Rightarrow> (nat \<Rightarrow> string) \<Rightarrow> string \<Rightarrow> string \<Rightarrow> string option \<Rightarrow> string option
   \<Rightarrow> string option \<Rightarrow> database \<times> catalog \<Rightarrow> tool_result \<times> database \<times> catalog" where
  "update_prompt_template k uuid now tid name description template st =
     (let db = fst st; cat = snd st
      in case select_template_by_id db tid of
           None \<Rightarrow> (not_found_id tid, db, cat)
         | Some existingTemplate \<Rightarrow>
            if name = None \<and> description = None \<and> template = None
            then (error_result ''Error updating prompt template: No values to set'', db, cat)
            else
              (let db1 = update_template db tid name description template;
                   updatedTemplate = apply_update name description template existingTemplate
               in case (case template of
                          None \<Rightarrow> Inr db1
                        | Some body \<Rightarrow> replace_inputs uuid now db1 tid body) of
                    Inl (e, dbe) \<Rightarrow>
                      (error_result (''Error updating prompt template: '' @ e), dbe, cat)
                  | Inr db4 \<Rightarrow>
                     (case server_prompt k (t_name updatedTemplate)
                             (registration updatedTemplate (select_inputs db4 tid)) cat of
                        Inl e \<Rightarrow> (error_result (''Error updating prompt template: '' @ e), db4, cat)
                      | Inr cat' \<Rightarrow>
                         (ok_result
                            (''Successfully updated prompt template ''
                             @ quoted (t_name updatedTemplate)
                             @ ''. The prompt list has been updated.''),
                          db4, cat'))))"

text \<open>
  \<^verbatim>\<open>delete_prompt_template\<close>: look the template up by id; answer not found if it is
  absent; remove the prompt from the server first; then delete the template row, whose
  inputs go with it.
\<close>

definition delete_prompt_template ::
  "sdk \<Rightarrow> string \<Rightarrow> database \<times> catalog \<Rightarrow> tool_result \<times> database \<times> catalog" where
  "delete_prompt_template k tid st =
     (let db = fst st; cat = snd st
      in case select_template_by_id db tid of
           None \<Rightarrow> (not_found_id tid, db, cat)
         | Some existingTemplate \<Rightarrow>
            (case server_removePrompt k (t_name existingTemplate) cat of
               Inl e \<Rightarrow> (error_result (''Error deleting prompt template: '' @ e), db, cat)
             | Inr cat' \<Rightarrow>
                (ok_result
                   (''Successfully deleted prompt template ''
                    @ quoted (t_name existingTemplate)
                    @ ''. The prompt has been removed from the prompts list.''),
                 delete_template db tid, cat')))"

text \<open>
  \<^verbatim>\<open>get_prompt_by_name\<close>: the first template of that name, its inputs, the render
  loop, then the check for missing required inputs:
  \<^verbatim>\<open>
  const missingInputs = templateInputs
    .filter((input: any) => input.required && !inputs[input.name])
    .map((input: any) => input.name);
  if (missingInputs.length > 0) { return { content: [{ type: "text", text: `Missing ...` }] }; }
  return { content: [{ type: "text", text: renderedTemplate }] };
  \<close>
  The diagnostic text is written in the source with doubled backslashes, so it holds a
  backslash and the letter n where a line break may have been meant. A request without
  inputs gets the handler's default, the empty object. The answer is \<open>None\<close> where the
  render loop meets a key this development does not cover; the handler's
  \<^verbatim>\<open>catch\<close> is reached only from there or from a failing store.
\<close>

definition missingInputs :: "prompt_input list \<Rightarrow> js_record \<Rightarrow> string list" where
  "missingInputs templateInputs inputs =
     map i_name
       (filter (\<lambda>input. i_required input \<and> \<not> truthy (get_property inputs (i_name input)))
          templateInputs)"

definition missing_report :: "string list \<Rightarrow> string \<Rightarrow> string list \<Rightarrow> tool_result" where
  "missing_report missing body known =
     ok_result
       (''Missing required inputs: '' @ join missing
        @ [CHR 0x5C, CHR ''n'', CHR 0x5C, CHR ''n''] @ ''Template: '' @ body
        @ [CHR 0x5C, CHR ''n''] @ ''Available inputs: '' @ join known)"

definition not_found_name :: "string \<Rightarrow> tool_result" where
  "not_found_name n = error_result (''Template '' @ quoted n @ '' not found'')"

definition get_prompt_by_name ::
  "string \<Rightarrow> js_record option \<Rightarrow> database \<Rightarrow> tool_result option" where
  "get_prompt_by_name name inputs_arg db =
     (let inputs = (case inputs_arg of None \<Rightarrow> [] | Some obj \<Rightarrow> obj)
      in case select_template_by_name db name of
           None \<Rightarrow> Some (not_found_name name)
         | Some template \<Rightarrow>
            (let templateInputs = select_inputs db (t_id template)
             in case render (t_template template) inputs of
                  None \<Rightarrow> None
                | Some renderedTemplate \<Rightarrow>
                   (let missing = missingInputs templateInputs inputs
                    in if missing \<noteq> []
                       then Some (missing_report missing (t_template template)
                                    (map i_name templateInputs))
                       else Some (ok_result renderedTemplate))))"

section \<open>The substitution rule in the words of the specification\<close>

text \<open>
  Section 4.4 of the specification asks for a literal, single-pass substitution: every
  occurrence of a supplied key's placeholder in the body is replaced by the key's value
  as it stands, and a value once substituted is not scanned again. \<open>literal_render\<close>
  follows these words, not the source: it reads the body once from left to right; where
  the placeholder of a supplied key begins (the first such key in the order of the
  entries), it emits the value verbatim and goes on behind the placeholder.
\<close>

fun first_match :: "js_record \<Rightarrow> string \<Rightarrow> (string \<times> string) option" where
  "first_match [] s = None"
| "first_match ((key, v) # entries) s =
     (if prefix (placeholder key) s then Some (key, v) else first_match entries s)"

function literal_render :: "string \<Rightarrow> js_record \<Rightarrow> string" where
  "literal_render [] entries = []"
| "literal_render (c # cs) entries =
     (case first_match entries (c # cs) of
        Some (key, v) \<Rightarrow> v @ literal_render (drop (length (placeholder key)) (c # cs)) entries
      | None \<Rightarrow> c # literal_render cs entries)"
  by pat_completeness auto
termination
  by (relation "measure (\<lambda>(s, entries). length s)") (auto simp: placeholder_def)

section \<open>Template text as tokens\<close>

text \<open>
  A view of a text used in the proofs about rendering: an opening brace together with
  the text up to the next closing brace is a hole, every other character stands for
  itself. An opening brace with no closing brace behind it is a character.
\<close>

datatype token = Chr char | Hole string

function tokens :: "string \<Rightarrow> token list" where
  "tokens [] = []"
| "tokens (c # r) =
     (if c = CHR ''{'' \<and> dropWhile not_close r \<noteq> []
      then Hole (takeWhile not_close r) # tokens (tl (dropWhile not_close r))
      else Chr c # tokens r)"
  by pat_completeness auto
termination
proof (relation "measure length")
  show "wf (measure length)" by simp
next
  fix c :: char and r :: string
  have "length (dropWhile not_close r) \<le> length r" by (rule length_dropWhile_le)
  then show "(tl (dropWhile not_close r), c # r) \<in> measure length" by simp
next
  fix c :: char and r :: string
  show "(r, c # r) \<in> measure length" by simp
qed

declare tokens.simps [simp del]

fun holes :: "token list \<Rightarrow> string list" where
  "holes [] = []"
| "holes (Chr c # ts) = holes ts"
| "holes (Hole g # ts) = g # holes ts"

definition open_free :: "string \<Rightarrow> bool" where
  "open_free s = (CHR ''{'' \<notin> set s)"

text \<open>What one replacement step does to a token, as text and as tokens.\<close>

fun subst_text :: "string \<Rightarrow> string \<Rightarrow> token \<Rightarrow> string" where
  "subst_text k v (Chr c) = [c]"
| "subst_text k v (Hole g) = (if g = k then v else placeholder g)"

fun subst_tokens :: "string \<Rightarrow> string \<Rightarrow> token \<Rightarrow> token list" where
  "subst_tokens k v (Chr c) = [Chr c]"
| "subst_tokens k v (Hole g) = (if g = k then map Chr v else [Hole g])"

section \<open>Sample data\<close>

text \<open>A store, an identifier supply and a registry used to run the model on concrete inputs.\<close>

definition sample_template :: "string \<Rightarrow> string \<Rightarrow> string \<Rightarrow> prompt_template" where
  "sample_template tid name body =
     \<lparr>t_id = tid, t_name = name, t_description = None, t_template = body,
      t_createdAt = ''2025-01-01 00:00:00'', t_updatedAt = ''2025-01-01 00:00:00''\<rparr>"

definition sample_input :: "string \<Rightarrow> string \<Rightarrow> string \<Rightarrow> prompt_input" where
  "sample_input iid tid name =
     \<lparr>i_id = iid, i_templateId = tid, i_name = name, i_description = None,
      i_required = True, i_createdAt = ''2025-01-01 00:00:00''\<rparr>"

definition sample_db :: database where
  "sample_db =
     \<lparr>promptTemplates = [sample_template ''t1'' ''greet'' ''{a}''],
      promptInputs = [sample_input ''i1'' ''t1'' ''a'']\<rparr>"

definition sample_uuid :: "nat \<Rightarrow> string" where
  "sample_uuid n = ''u'' @ show_nat n"

definition never_throws :: sdk where
  "never_throws = \<lparr>prompt_throws = (\<lambda>cat name. None), removePrompt_throws = (\<lambda>cat name. None)\<rparr>"

definition empty_db :: database where
  "empty_db = \<lparr>promptTemplates = [], promptInputs = []\<rparr>"

definition three_db :: database where
  "three_db =
     \<lparr>promptTemplates =
        [sample_template ''t1'' ''first'' ''Hi {n}'',
         sample_template ''t2'' ''second'' ''Dear {n}'',
         sample_template ''t3'' ''third'' ''Bye {n}''],
      promptInputs =
        [sample_input ''i1'' ''t1'' ''n'', sample_input ''i2'' ''t2'' ''n'',
         sample_input ''i3'' ''t3'' ''n'']\<rparr>"

definition throws_on :: "string \<Rightarrow> sdk" where
  "throws_on bad =
     \<lparr>prompt_throws = (\<lambda>cat name. if name = bad then Some ''registration failed'' else None),
      removePrompt_throws = (\<lambda>cat name. None)\<rparr>"

definition throws_on_duplicate :: sdk where
  "throws_on_duplicate =
     \<lparr>prompt_throws =
        (\<lambda>cat name. if name \<in> set (map fst cat) then Some ''already registered'' else None),
      removePrompt_throws = (\<lambda>cat name. None)\<rparr>"

definition ctor_db :: database where
  "ctor_db =
     \<lparr>promptTemplates =
        [\<lparr>t_id = ''u0'', t_name = ''ctor'', t_description = None,
          t_template = ''{constructor}'', t_createdAt = ''2025-01-01 00:00:00'',
          t_updatedAt = ''2025-01-01 00:00:00''\<rparr>],
      promptInputs = [sample_input ''u1'' ''u0'' ''constructor'']\<rparr>"

section \<open>Properties of the extraction\<close>

lemma remdups_snoc: "remdups (zs @ [x]) = remdups (filter (\<lambda>y. y \<noteq> x) zs) @ [x]"
  by (induction zs) auto

lemma foldl_set_add_acc:
  "foldl set_add acc xs = acc @ rev (remdups (rev (filter (\<lambda>x. x \<notin> set acc) xs)))"
proof (induction xs arbitrary: acc)
  case Nil
  then show ?case by simp
next
  case (Cons x xs)
  show ?case
  proof (cases "x \<in> set acc")
    case True
    then show ?thesis using Cons.IH [of acc] by (simp add: set_add_def)
  next
    case False
    have f: "filter (\<lambda>y. y \<notin> set (acc @ [x])) xs
             = filter (\<lambda>y. y \<noteq> x) (filter (\<lambda>y. y \<notin> set acc) xs)"
      by (induction xs) auto
    have "foldl set_add acc (x # xs) = foldl set_add (acc @ [x]) xs"
      using False by (simp add: set_add_def)
    also have "\<dots> = (acc @ [x]) @ rev (remdups (rev (filter (\<lambda>y. y \<notin> set (acc @ [x])) xs)))"
      by (rule Cons.IH)
    also have "\<dots> = acc @ rev (remdups (rev (filter (\<lambda>y. y \<notin> set acc) xs) @ [x]))"
      by (simp only: f remdups_snoc rev_filter [symmetric]) simp
    finally show ?thesis using False by simp
  qed
qed

lemma extractInputs_first_occurrence:
  "extractInputs s = rev (remdups (rev (regex_exec_all s)))"
  by (simp add: extractInputs_def foldl_set_add_acc)

lemma match_here_Some_iff:
  "match_here s = Some (g, rest) \<longleftrightarrow>
     g \<noteq> [] \<and> CHR ''}'' \<notin> set g \<and> s = CHR ''{'' # g @ CHR ''}'' # rest"
proof
  assume m: "match_here s = Some (g, rest)"
  then obtain r where s: "s = CHR ''{'' # r" by (cases s) (auto split: if_splits)
  from m s have g: "g = takeWhile not_close r" and ne: "g \<noteq> []"
    and d: "dropWhile not_close r \<noteq> []" and rest: "rest = tl (dropWhile not_close r)"
    by (auto simp: Let_def split: if_splits)
  from d have "\<not> not_close (hd (dropWhile not_close r))" by (rule hd_dropWhile)
  then have "hd (dropWhile not_close r) = CHR ''}''" by (simp add: not_close_def)
  with d rest have "dropWhile not_close r = CHR ''}'' # rest" by (cases "dropWhile not_close r") auto
  then have "r = g @ CHR ''}'' # rest" using g takeWhile_dropWhile_id [of not_close r] by simp
  moreover have "CHR ''}'' \<notin> set g" using g set_takeWhileD [of "CHR ''}''" not_close r]
    by (auto simp: not_close_def)
  ultimately show "g \<noteq> [] \<and> CHR ''}'' \<notin> set g \<and> s = CHR ''{'' # g @ CHR ''}'' # rest"
    using ne s by simp
next
  assume a: "g \<noteq> [] \<and> CHR ''}'' \<notin> set g \<and> s = CHR ''{'' # g @ CHR ''}'' # rest"
  then have "\<forall>c\<in>set g. not_close c" by (auto simp: not_close_def)
  then have "takeWhile not_close (g @ CHR ''}'' # rest) = g"
    and "dropWhile not_close (g @ CHR ''}'' # rest) = CHR ''}'' # rest"
    by (simp_all add: takeWhile_append2 dropWhile_append2 not_close_def)
  with a show "match_here s = Some (g, rest)" by (simp add: Let_def)
qed

lemma regex_exec_all_skip:
  "CHR ''{'' \<notin> set pre \<Longrightarrow> regex_exec_all (pre @ s) = regex_exec_all s"
proof (induction pre)
  case Nil
  then show ?case by simp
next
  case (Cons c pre)
  then have "match_here ((c # pre) @ s) = None" by auto
  then have "regex_exec_all ((c # pre) @ s) = regex_exec_all (pre @ s)"
    by (subst regex_exec_all.simps) simp
  with Cons show ?case by simp
qed

lemma regex_exec_all_span:
  assumes "CHR ''{'' \<notin> set pre" "n \<noteq> []" "CHR ''}'' \<notin> set n"
  shows "regex_exec_all (pre @ CHR ''{'' # n @ CHR ''}'' # rest) = n # regex_exec_all rest"
proof -
  have "match_here (CHR ''{'' # n @ CHR ''}'' # rest) = Some (n, rest)"
    using assms by (simp only: match_here_Some_iff) simp
  then have "regex_exec_all (CHR ''{'' # n @ CHR ''}'' # rest) = n # regex_exec_all rest"
    by (subst regex_exec_all.simps) simp
  with assms(1) show ?thesis by (simp add: regex_exec_all_skip)
qed

lemma regex_exec_all_none:
  "CHR ''{'' \<notin> set s \<or> CHR ''}'' \<notin> set s \<Longrightarrow> regex_exec_all s = []"
proof (induction s)
  case Nil
  then show ?case by (simp add: regex_exec_all.simps)
next
  case (Cons c s)
  have "match_here (c # s) = None"
  proof (cases "match_here (c # s)")
    case None then show ?thesis .
  next
    case (Some p)
    obtain g rest where "p = (g, rest)" by (cases p)
    with Some have "c # s = CHR ''{'' # g @ CHR ''}'' # rest" by (simp only: match_here_Some_iff)
    with Cons.prems show ?thesis by auto
  qed
  then have "regex_exec_all (c # s) = regex_exec_all s"
    by (subst regex_exec_all.simps) simp
  with Cons show ?case by auto
qed

lemma regex_exec_all_names:
  "g \<in> set (regex_exec_all s) \<Longrightarrow> g \<noteq> [] \<and> CHR ''}'' \<notin> set g"
proof (induction s arbitrary: g rule: regex_exec_all.induct)
  case (1 s)
  show ?case
  proof (cases "match_here s")
    case None
    show ?thesis
    proof (cases s)
      case Nil
      with None "1.prems" show ?thesis by (simp add: regex_exec_all.simps)
    next
      case (Cons c cs)
      with None "1.prems" have "g \<in> set (regex_exec_all cs)"
        by (subst (asm) regex_exec_all.simps) simp
      with "1.IH"(1) [OF None Cons] show ?thesis .
    qed
  next
    case (Some p)
    obtain h rest where p: "p = (h, rest)" by (cases p)
    with Some "1.prems" have "g = h \<or> g \<in> set (regex_exec_all rest)"
      by (subst (asm) regex_exec_all.simps) auto
    then show ?thesis
    proof
      assume "g = h"
      with Some p show ?thesis by (simp add: match_here_Some_iff)
    next
      assume "g \<in> set (regex_exec_all rest)"
      with "1.IH"(2) Some p show ?thesis by simp
    qed
  qed
qed

lemma regex_exec_all_Nil: "regex_exec_all [] = []"
  by (simp add: regex_exec_all.simps)

lemma extractInputs_skip:
  "CHR ''{'' \<notin> set pre \<Longrightarrow> extractInputs (pre @ s) = extractInputs s"
  by (simp add: extractInputs_def regex_exec_all_skip)

lemma extractInputs_no_close:
  "CHR ''}'' \<notin> set s \<Longrightarrow> extractInputs s = []"
  by (simp add: extractInputs_def regex_exec_all_none)

lemma extractInputs_empty_braces:
  "extractInputs (CHR ''{'' # CHR ''}'' # rest) = extractInputs rest"
proof -
  have "regex_exec_all (CHR ''{'' # CHR ''}'' # rest) = regex_exec_all (CHR ''}'' # rest)"
    by (subst regex_exec_all.simps) (simp add: not_close_def)
  also have "\<dots> = regex_exec_all rest"
    by (subst regex_exec_all.simps) simp
  finally show ?thesis by (simp add: extractInputs_def)
qed

lemma extractInputs_span:
  assumes "n \<noteq> []" "CHR ''}'' \<notin> set n"
  shows "extractInputs (CHR ''{'' # n @ CHR ''}'' # rest)
         = n # filter (\<lambda>m. m \<noteq> n) (extractInputs rest)"
proof -
  have "regex_exec_all (CHR ''{'' # n @ CHR ''}'' # rest) = n # regex_exec_all rest"
    using regex_exec_all_span [of "[]" n rest] assms by simp
  then have "extractInputs (CHR ''{'' # n @ CHR ''}'' # rest)
             = rev (remdups (rev (regex_exec_all rest) @ [n]))"
    by (simp add: extractInputs_first_occurrence)
  also have "\<dots> = n # rev (remdups (filter (\<lambda>m. m \<noteq> n) (rev (regex_exec_all rest))))"
    by (simp only: remdups_snoc) simp
  also have "\<dots> = n # filter (\<lambda>m. m \<noteq> n) (extractInputs rest)"
    by (simp add: extractInputs_first_occurrence remdups_filter rev_filter)
  finally show ?thesis .
qed

lemma distinct_extractInputs: "distinct (extractInputs s)"
  by (simp add: extractInputs_first_occurrence)

lemma set_extractInputs: "set (extractInputs s) = set (regex_exec_all s)"
  by (simp add: extractInputs_first_occurrence)

text \<open>
  Claim C7. For every input string, \<open>extractInputs\<close> returns the distinct placeholder
  identifiers in first-occurrence order with duplicates collapsed. The matching rule is
  given by four equations that determine the result on every string: text without an
  opening brace is skipped; text without a closing brace yields nothing; an empty pair
  of braces is no placeholder; and the leftmost opening brace with a non-empty body
  free of closing braces up to the first closing brace yields that body, followed by
  the names of the remaining text other than that body. In particular
  \<open>extractInputs ''{a}-{b}-{a}'' = [''a'', ''b'']\<close> and
  \<open>extractInputs ''{a} } {b'' = [''a'']\<close>.
\<close>

theorem extractInputs_first_occurrence_order:
  "distinct (extractInputs s)
   \<and> extractInputs s = rev (remdups (rev (regex_exec_all s)))
   \<and> (\<forall>pre t. CHR ''{'' \<notin> set pre \<longrightarrow> extractInputs (pre @ t) = extractInputs t)
   \<and> (\<forall>t. CHR ''}'' \<notin> set t \<longrightarrow> extractInputs t = [])
   \<and> (\<forall>rest. extractInputs (CHR ''{'' # CHR ''}'' # rest) = extractInputs rest)
   \<and> (\<forall>n rest. n \<noteq> [] \<and> CHR ''}'' \<notin> set n \<longrightarrow>
         extractInputs (CHR ''{'' # n @ CHR ''}'' # rest)
         = n # filter (\<lambda>m. m \<noteq> n) (extractInputs rest))
   \<and> extractInputs ''{a}-{b}-{a}'' = [''a'', ''b'']
   \<and> extractInputs ''{a} } {b'' = [''a'']"
proof -
  have e1: "extractInputs ''{a}-{b}-{a}'' = [''a'', ''b'']" by code_simp
  have e2: "extractInputs ''{a} } {b'' = [''a'']" by code_simp
  show ?thesis
    using distinct_extractInputs extractInputs_first_occurrence extractInputs_skip
      extractInputs_no_close extractInputs_empty_braces extractInputs_span e1 e2
    by blast
qed

theorem extractInputs_first_occurrence_order_witness:
  "CHR ''{'' \<notin> set ''x-'' \<and> extractInputs (''x-'' @ ''{a}{b}{a}'') = extractInputs ''{a}{b}{a}''
   \<and> CHR ''}'' \<notin> set ''{ab'' \<and> extractInputs ''{ab'' = []
   \<and> ''a'' \<noteq> [] \<and> CHR ''}'' \<notin> set ''a''
   \<and> extractInputs (CHR ''{'' # ''a'' @ CHR ''}'' # ''{b}{a}'')
       = ''a'' # filter (\<lambda>m. m \<noteq> ''a'') (extractInputs ''{b}{a}'')
   \<and> extractInputs ''{a}{b}{a}'' = [''a'', ''b'']"
proof -
  note t = extractInputs_first_occurrence_order [of "''{a}{b}{a}''"]
  have h1: "CHR ''{'' \<notin> set ''x-''" by simp
  have h2: "CHR ''}'' \<notin> set ''{ab''" by simp
  have h3: "''a'' \<noteq> [] \<and> CHR ''}'' \<notin> set ''a''" by simp
  from t h1 have c1: "extractInputs (''x-'' @ ''{a}{b}{a}'') = extractInputs ''{a}{b}{a}''"
    by blast
  from t h2 have c2: "extractInputs ''{ab'' = []" by blast
  from t h3 have c3: "extractInputs (CHR ''{'' # ''a'' @ CHR ''}'' # ''{b}{a}'')
       = ''a'' # filter (\<lambda>m. m \<noteq> ''a'') (extractInputs ''{b}{a}'')"
    by blast
  have c4: "extractInputs ''{a}{b}{a}'' = [''a'', ''b'']" by code_simp
  from h1 h2 h3 c1 c2 c3 c4 show ?thesis by blast
qed

text \<open>
  Claim C10. For every input string, every identifier returned by \<open>extractInputs\<close> is
  non-empty and contains no closing brace; the two-character span of an opening and a
  closing brace is never extracted as a placeholder; an identifier may contain an
  opening brace, as in \<open>extractInputs ''{a{b}'' = [''a{b'']\<close>.
\<close>

theorem extractInputs_names_nonempty_no_close:
  "(\<forall>g \<in> set (extractInputs s). g \<noteq> [] \<and> CHR ''}'' \<notin> set g)
   \<and> extractInputs (CHR ''{'' # CHR ''}'' # rest) = extractInputs rest
   \<and> extractInputs ''{}'' = []
   \<and> extractInputs ''{a{b}'' = [''a{b'']"
proof -
  have e1: "extractInputs ''{}'' = []" by code_simp
  have e2: "extractInputs ''{a{b}'' = [''a{b'']" by code_simp
  have "\<forall>g \<in> set (extractInputs s). g \<noteq> [] \<and> CHR ''}'' \<notin> set g"
    using regex_exec_all_names by (simp add: set_extractInputs)
  with e1 e2 extractInputs_empty_braces show ?thesis by blast
qed

theorem extractInputs_names_nonempty_no_close_witness:
  "''a{b'' \<in> set (extractInputs ''x{}{a{b}y'') \<and> ''a{b'' \<noteq> [] \<and> CHR ''}'' \<notin> set ''a{b''"
proof -
  have m: "''a{b'' \<in> set (extractInputs ''x{}{a{b}y'')" by code_simp
  from extractInputs_names_nonempty_no_close [of "''x{}{a{b}y''"] m
  have "''a{b'' \<noteq> [] \<and> CHR ''}'' \<notin> set ''a{b''" by blast
  with m show ?thesis by blast
qed

section \<open>Properties of rendering\<close>

lemma get_substitution_no_dollar:
  "CHR ''$'' \<notin> set v \<Longrightarrow> get_substitution m l r v = v"
  by (induction m l r v rule: get_substitution.induct) auto

lemma replace_all_matches_literal:
  "CHR ''$'' \<notin> set v \<Longrightarrow>
   replace_all_matches (placeholder key) v pre s = literal_render s [(key, v)]"
proof (induction s arbitrary: pre rule: length_induct)
  case (1 s)
  show ?case
  proof (cases s)
    case Nil
    then show ?thesis by simp
  next
    case (Cons c cs)
    show ?thesis
    proof (cases "prefix (placeholder key) (c # cs)")
      case True
      have "length (drop (length (placeholder key)) (c # cs)) < length s"
        using Cons by (simp add: placeholder_def)
      with "1.IH" "1.prems"
      have "replace_all_matches (placeholder key) v (pre @ placeholder key)
              (drop (length (placeholder key)) (c # cs))
            = literal_render (drop (length (placeholder key)) (c # cs)) [(key, v)]"
        by blast
      with True Cons "1.prems" show ?thesis
        by (simp add: get_substitution_no_dollar placeholder_def)
    next
      case False
      have "length cs < length s" using Cons by simp
      with "1.IH" "1.prems"
      have "replace_all_matches (placeholder key) v (pre @ [c]) cs = literal_render cs [(key, v)]"
        by blast
      with False Cons show ?thesis by simp
    qed
  qed
qed

lemma render_sequential:
  "list_all plain_key (map fst entries) \<Longrightarrow>
   list_all (\<lambda>v. CHR ''$'' \<notin> set v) (map snd entries) \<Longrightarrow>
   render body entries
   = Some (foldl (\<lambda>t (key, v). literal_render t [(key, v)]) body entries)"
proof (induction entries arbitrary: body)
  case Nil
  then show ?case by simp
next
  case (Cons e entries)
  obtain key v where e: "e = (key, v)" by (cases e)
  from Cons.prems e have "replace_key key v body = Some (literal_render body [(key, v)])"
    by (simp add: replace_key_def replace_all_matches_literal)
  with Cons e show ?case by simp
qed

lemmas sample_defs = sample_db_def sample_template_def sample_input_def empty_db_def three_db_def
  throws_on_def throws_on_duplicate_def ctor_db_def never_throws_def sample_uuid_def

lemmas render_defs = replace_key_def plain_key_def plain_char_def regex_syntax_chars_def
  placeholder_def

lemmas tool_defs = get_prompt_by_name_def select_template_by_name_def select_template_by_id_def
  select_inputs_def missingInputs_def get_property_def ok_result_def error_result_def
  object_prototype_names_def

lemma get_prompt_by_name_rendered:
  assumes "select_template_by_name db name = Some t"
    and "render (t_template t) entries = Some rendered"
    and "missingInputs (select_inputs db (t_id t)) entries = []"
  shows "get_prompt_by_name name (Some entries) db = Some (ok_result rendered)"
  using assms by (simp add: get_prompt_by_name_def)

text \<open>
  Claim C1, as stated: at every render site the supplied value is inserted verbatim, is
  never read as a replacement pattern, and a substituted value is never scanned again in
  the same render pass. The source does otherwise. With the values \<open>a \<mapsto> {b}\<close> and
  \<open>b \<mapsto> X\<close> the body \<open>{a}\<close> renders to \<open>X\<close>, where the literal single pass gives
  \<open>{b}\<close>; and the value \<open>$&\<close> for \<open>a\<close> is expanded to the matched text, so the body
  \<open>{a}\<close> renders to itself.
\<close>

theorem render_not_literal_counterexample:
  "render ''{a}'' [(''a'', ''{b}''), (''b'', ''X'')] = Some ''X''
   \<and> literal_render ''{a}'' [(''a'', ''{b}''), (''b'', ''X'')] = ''{b}''
   \<and> get_prompt_by_name ''greet'' (Some [(''a'', ''{b}''), (''b'', ''X'')]) sample_db
       = Some (ok_result ''X'')
   \<and> prompt_callback
         (registration (sample_template ''t1'' ''greet'' ''{a}'') [sample_input ''i1'' ''t1'' ''a''])
         [(''a'', ''{b}''), (''b'', ''X'')]
       = Some (''Prompt template: greet'', ''X'')
   \<and> render ''{a}'' [(''a'', ''$&'')] = Some ''{a}''
   \<and> literal_render ''{a}'' [(''a'', ''$&'')] = ''$&''"
proof -
  have r1: "render ''{a}'' [(''a'', ''{b}''), (''b'', ''X'')] = Some ''X''"
    by (simp add: render_defs)
  have l1: "literal_render ''{a}'' [(''a'', ''{b}''), (''b'', ''X'')] = ''{b}''"
    by (simp add: placeholder_def)
  have g1: "get_prompt_by_name ''greet'' (Some [(''a'', ''{b}''), (''b'', ''X'')]) sample_db
            = Some (ok_result ''X'')"
    by (simp add: sample_defs render_defs tool_defs)
  have p1: "prompt_callback
         (registration (sample_template ''t1'' ''greet'' ''{a}'') [sample_input ''i1'' ''t1'' ''a''])
         [(''a'', ''{b}''), (''b'', ''X'')]
       = Some (''Prompt template: greet'', ''X'')"
    by (simp add: prompt_callback_def registration_def sample_defs render_defs)
  have r2: "render ''{a}'' [(''a'', ''$&'')] = Some ''{a}''"
    by (simp add: render_defs)
  have l2: "literal_render ''{a}'' [(''a'', ''$&'')] = ''$&''"
    by (simp add: placeholder_def)
  from r1 l1 g1 p1 r2 l2 show ?thesis by blast
qed

text \<open>
  Claim C1, amended. Rendering is a sequence of steps, one per entry of the values in
  the order of the entries. For keys that are plain text in a pattern and values without
  a dollar sign, each step is the literal single-pass substitution of that one key: the
  value is inserted verbatim for every occurrence of the key's placeholder in the text
  the step starts from, and what a step inserts is not scanned again in that step. A
  later step does scan what earlier steps inserted. With a single entry the render is
  the literal single pass of the specification. This holds for the render loop, for the
  prompt closures and for what \<open>get_prompt_by_name\<close> returns when nothing is missing.
\<close>

theorem render_is_sequential_literal:
  assumes "list_all plain_key (map fst entries)"
    and "list_all (\<lambda>v. CHR ''$'' \<notin> set v) (map snd entries)"
  shows "render body entries
           = Some (foldl (\<lambda>t (key, v). literal_render t [(key, v)]) body entries)
     \<and> prompt_callback p entries
           = Some (p_description p,
                   foldl (\<lambda>t (key, v). literal_render t [(key, v)]) (p_template p) entries)
     \<and> (select_template_by_name db name = Some t
          \<and> missingInputs (select_inputs db (t_id t)) entries = []
        \<longrightarrow> get_prompt_by_name name (Some entries) db
              = Some (ok_result
                   (foldl (\<lambda>t (key, v). literal_render t [(key, v)]) (t_template t) entries)))
     \<and> (\<forall>key v. entries = [(key, v)]
          \<longrightarrow> render body entries = Some (literal_render body entries))"
proof -
  note r = render_sequential [OF assms]
  have a: "prompt_callback p entries
           = Some (p_description p,
                   foldl (\<lambda>t (key, v). literal_render t [(key, v)]) (p_template p) entries)"
    by (simp add: prompt_callback_def r)
  have b: "get_prompt_by_name name (Some entries) db
              = Some (ok_result
                   (foldl (\<lambda>t (key, v). literal_render t [(key, v)]) (t_template t) entries))"
    if "select_template_by_name db name = Some t"
      and "missingInputs (select_inputs db (t_id t)) entries = []"
    using that r by (simp add: get_prompt_by_name_rendered)
  have c: "render body entries = Some (literal_render body entries)"
    if "entries = [(key, v)]" for key v
    using that r [of body] by simp
  from r [of body] a b c show ?thesis by blast
qed

theorem render_is_sequential_literal_witness:
  "list_all plain_key (map fst [(''a'', ''{b}''), (''b'', ''X'')])
   \<and> list_all (\<lambda>v. CHR ''$'' \<notin> set v) (map snd [(''a'', ''{b}''), (''b'', ''X'')])
   \<and> render ''{a}'' [(''a'', ''{b}''), (''b'', ''X'')]
       = Some (literal_render (literal_render ''{a}'' [(''a'', ''{b}'')]) [(''b'', ''X'')])"
proof -
  have h1: "list_all plain_key (map fst [(''a'', ''{b}''), (''b'', ''X'')])"
    by (simp add: render_defs)
  have h2: "list_all (\<lambda>v. CHR ''$'' \<notin> set v) (map snd [(''a'', ''{b}''), (''b'', ''X'')])"
    by simp
  from render_is_sequential_literal [OF h1 h2, of "''{a}''"]
  have "render ''{a}'' [(''a'', ''{b}''), (''b'', ''X'')]
        = Some (foldl (\<lambda>t (key, v). literal_render t [(key, v)]) ''{a}''
                  [(''a'', ''{b}''), (''b'', ''X'')])"
    by blast
  then have "render ''{a}'' [(''a'', ''{b}''), (''b'', ''X'')]
       = Some (literal_render (literal_render ''{a}'' [(''a'', ''{b}'')]) [(''b'', ''X'')])"
    by (simp del: literal_render.simps render.simps)
  with h1 h2 show ?thesis by blast
qed

subsection \<open>No placeholder left\<close>

lemma closed_split:
  assumes "dropWhile not_close r \<noteq> []"
  shows "r = takeWhile not_close r @ CHR ''}'' # tl (dropWhile not_close r)"
    and "CHR ''}'' \<notin> set (takeWhile not_close r)"
proof -
  from assms have "\<not> not_close (hd (dropWhile not_close r))" by (rule hd_dropWhile)
  then have "hd (dropWhile not_close r) = CHR ''}''" by (simp add: not_close_def)
  with assms have "dropWhile not_close r = CHR ''}'' # tl (dropWhile not_close r)"
    by (cases "dropWhile not_close r") auto
  then show "r = takeWhile not_close r @ CHR ''}'' # tl (dropWhile not_close r)"
    using takeWhile_dropWhile_id [of not_close r] by simp
  show "CHR ''}'' \<notin> set (takeWhile not_close r)"
    using set_takeWhileD [of "CHR ''}''" not_close r] by (auto simp: not_close_def)
qed

lemma unclosed_no_close:
  "dropWhile not_close r = [] \<Longrightarrow> CHR ''}'' \<notin> set r"
  by (auto simp: dropWhile_eq_Nil_conv not_close_def)

lemma tokens_hole:
  assumes "CHR ''}'' \<notin> set g"
  shows "tokens (CHR ''{'' # g @ CHR ''}'' # rest) = Hole g # tokens rest"
proof -
  from assms have "\<forall>c\<in>set g. not_close c" by (auto simp: not_close_def)
  then have "takeWhile not_close (g @ CHR ''}'' # rest) = g"
    and "dropWhile not_close (g @ CHR ''}'' # rest) = CHR ''}'' # rest"
    by (simp_all add: takeWhile_append2 dropWhile_append2 not_close_def)
  then show ?thesis by (simp add: tokens.simps)
qed

lemma tokens_chars:
  "CHR ''{'' \<notin> set v \<Longrightarrow> tokens (v @ t) = map Chr v @ tokens t"
  by (induction v) (auto simp: tokens.simps)

lemma tokens_unclosed:
  "CHR ''}'' \<notin> set r \<Longrightarrow> tokens (c # r) = Chr c # tokens r"
proof -
  assume "CHR ''}'' \<notin> set r"
  then have "dropWhile not_close r = []"
    by (auto simp: dropWhile_eq_Nil_conv not_close_def)
  then show ?thesis by (simp add: tokens.simps)
qed

text \<open>The pattern of the extraction finds exactly the non-empty holes.\<close>

lemma regex_exec_all_tokens:
  "regex_exec_all s = filter (\<lambda>g. g \<noteq> []) (holes (tokens s))"
proof (induction s rule: tokens.induct)
  case 1
  show ?case by (simp add: regex_exec_all.simps tokens.simps)
next
  case (2 c r)
  show ?case
  proof (cases "c = CHR ''{'' \<and> dropWhile not_close r \<noteq> []")
    case True
    let ?g = "takeWhile not_close r" and ?rest = "tl (dropWhile not_close r)"
    from True have tk: "tokens (c # r) = Hole ?g # tokens ?rest" by (simp add: tokens.simps)
    from True "2.IH"(1) have ih: "regex_exec_all ?rest = filter (\<lambda>g. g \<noteq> []) (holes (tokens ?rest))"
      by simp
    show ?thesis
    proof (cases "?g = []")
      case False
      with True have "match_here (c # r) = Some (?g, ?rest)" by (simp add: Let_def)
      then have "regex_exec_all (c # r) = ?g # regex_exec_all ?rest"
        by (subst regex_exec_all.simps) simp
      with tk ih False show ?thesis by simp
    next
      case g: True
      with True have m: "match_here (c # r) = None" by (simp add: Let_def)
      from True closed_split(1) [of r] g have r: "r = CHR ''}'' # ?rest" by simp
      from m have "regex_exec_all (c # r) = regex_exec_all r"
        by (subst regex_exec_all.simps) simp
      also have "\<dots> = regex_exec_all (CHR ''}'' # ?rest)" using r by simp
      also have "\<dots> = regex_exec_all ?rest"
        by (subst regex_exec_all.simps) simp
      finally show ?thesis using tk ih g by simp
    qed
  next
    case False
    then have tk: "tokens (c # r) = Chr c # tokens r" by (simp add: tokens.simps)
    from False have "match_here (c # r) = None" by (auto simp: Let_def)
    then have "regex_exec_all (c # r) = regex_exec_all r"
      by (subst regex_exec_all.simps) simp
    with tk "2.IH"(2) False show ?thesis by simp
  qed
qed

lemma prefix_until_close:
  "CHR ''}'' \<notin> set k \<Longrightarrow> CHR ''}'' \<notin> set g \<Longrightarrow>
   prefix (k @ [CHR ''}'']) (g @ CHR ''}'' # y) \<longleftrightarrow> k = g"
proof (induction k arbitrary: g)
  case Nil
  then show ?case by (cases g) auto
next
  case (Cons a k)
  then show ?case by (cases g) auto
qed

lemma prefix_placeholder_hole:
  "CHR ''}'' \<notin> set k \<Longrightarrow> CHR ''}'' \<notin> set g \<Longrightarrow>
   prefix (placeholder k) (CHR ''{'' # g @ CHR ''}'' # y) \<longleftrightarrow> k = g"
  by (simp add: placeholder_def prefix_until_close)

lemma prefix_placeholder_needs_close:
  "prefix (placeholder k) s \<Longrightarrow> CHR ''}'' \<in> set s"
  by (auto simp: placeholder_def prefix_def)

lemma literal_render_skip:
  "CHR ''{'' \<notin> set pre \<Longrightarrow>
   literal_render (pre @ t) [(k, v)] = pre @ literal_render t [(k, v)]"
  by (induction pre) (auto simp: placeholder_def)

lemma literal_render_no_close:
  "CHR ''}'' \<notin> set s \<Longrightarrow> literal_render s [(k, v)] = s"
proof (induction s)
  case Nil
  show ?case by simp
next
  case (Cons c s)
  have "\<not> prefix (placeholder k) (c # s)"
    using prefix_placeholder_needs_close [of k "c # s"] Cons.prems by blast
  with Cons show ?case by simp
qed


lemma literal_render_tokens:
  assumes k: "CHR ''}'' \<notin> set k" and v: "CHR ''{'' \<notin> set v"
  shows "list_all open_free (holes (tokens s)) \<Longrightarrow>
         literal_render s [(k, v)] = concat (map (subst_text k v) (tokens s))
         \<and> tokens (literal_render s [(k, v)]) = concat (map (subst_tokens k v) (tokens s))"
proof (induction s rule: tokens.induct)
  case 1
  show ?case by (simp add: tokens.simps)
next
  case (2 c r)
  show ?case
  proof (cases "c = CHR ''{'' \<and> dropWhile not_close r \<noteq> []")
    case True
    let ?g = "takeWhile not_close r" and ?rest = "tl (dropWhile not_close r)"
    from True have c: "c = CHR ''{''" and cl: "dropWhile not_close r \<noteq> []" by simp_all
    note r = closed_split(1) [OF cl] and g = closed_split(2) [OF cl]
    from True have tk: "tokens (c # r) = Hole ?g # tokens ?rest" by (simp add: tokens.simps)
    from tk "2.prems" have og: "CHR ''{'' \<notin> set ?g" by (simp add: open_free_def)
    from tk "2.prems" have wf: "list_all open_free (holes (tokens ?rest))" by simp
    note ih1 = conjunct1 [OF "2.IH"(1) [OF True wf]]
      and ih2 = conjunct2 [OF "2.IH"(1) [OF True wf]]
    have s: "c # r = CHR ''{'' # ?g @ CHR ''}'' # ?rest" using c r by simp
    show ?thesis
    proof (cases "?g = k")
      case same: True
      have p: "prefix (placeholder k) (c # r)"
        by (subst s) (simp add: prefix_placeholder_hole k g same)
      have d: "drop (length (placeholder k)) (c # r) = ?rest"
        by (subst s) (simp add: placeholder_def same [symmetric])
      from p d have lr: "literal_render (c # r) [(k, v)] = v @ literal_render ?rest [(k, v)]"
        by simp
      from lr ih1 tk same have a: "literal_render (c # r) [(k, v)]
            = concat (map (subst_text k v) (tokens (c # r)))"
        by simp
      from lr have "tokens (literal_render (c # r) [(k, v)])
            = map Chr v @ tokens (literal_render ?rest [(k, v)])"
        by (simp add: tokens_chars v)
      with ih2 tk same have b: "tokens (literal_render (c # r) [(k, v)])
            = concat (map (subst_tokens k v) (tokens (c # r)))"
        by simp
      from a b show ?thesis ..
    next
      case diff: False
      have p: "\<not> prefix (placeholder k) (c # r)"
        by (subst s) (simp add: prefix_placeholder_hole k g diff [symmetric] del: append.simps
            ; use diff in blast)
      have og': "CHR ''{'' \<notin> set (?g @ [CHR ''}''])" using og by simp
      from p have "literal_render (c # r) [(k, v)] = c # literal_render r [(k, v)]" by simp
      also have "\<dots> = c # literal_render ((?g @ [CHR ''}'']) @ ?rest) [(k, v)]"
        using r by simp
      also have "\<dots> = c # (?g @ [CHR ''}'']) @ literal_render ?rest [(k, v)]"
        by (simp only: literal_render_skip [OF og'])
      finally have lr: "literal_render (c # r) [(k, v)]
            = CHR ''{'' # ?g @ CHR ''}'' # literal_render ?rest [(k, v)]"
        using c by simp
      from lr ih1 tk diff have a: "literal_render (c # r) [(k, v)]
            = concat (map (subst_text k v) (tokens (c # r)))"
        by (simp add: placeholder_def)
      from lr have "tokens (literal_render (c # r) [(k, v)])
            = Hole ?g # tokens (literal_render ?rest [(k, v)])"
        by (simp add: tokens_hole g)
      with ih2 tk diff have b: "tokens (literal_render (c # r) [(k, v)])
            = concat (map (subst_tokens k v) (tokens (c # r)))"
        by simp
      from a b show ?thesis ..
    qed
  next
    case False
    then have tk: "tokens (c # r) = Chr c # tokens r" by (simp add: tokens.simps)
    with "2.prems" have wf: "list_all open_free (holes (tokens r))" by simp
    note ih1 = conjunct1 [OF "2.IH"(2) [OF False wf]]
      and ih2 = conjunct2 [OF "2.IH"(2) [OF False wf]]
    have p: "\<not> prefix (placeholder k) (c # r)"
    proof
      assume pp: "prefix (placeholder k) (c # r)"
      then have c: "c = CHR ''{''" by (simp add: placeholder_def)
      with False have "dropWhile not_close r = []" by simp
      then have "CHR ''}'' \<notin> set r" by (rule unclosed_no_close)
      moreover from pp have "CHR ''}'' \<in> set (c # r)" by (rule prefix_placeholder_needs_close)
      ultimately show False using c by simp
    qed
    then have lr: "literal_render (c # r) [(k, v)] = c # literal_render r [(k, v)]" by simp
    from lr ih1 tk have a: "literal_render (c # r) [(k, v)]
            = concat (map (subst_text k v) (tokens (c # r)))"
      by simp
    have "tokens (c # literal_render r [(k, v)]) = Chr c # tokens (literal_render r [(k, v)])"
    proof (cases "c = CHR ''{''")
      case True
      with False have "dropWhile not_close r = []" by simp
      then have nc: "CHR ''}'' \<notin> set r" by (rule unclosed_no_close)
      then have "literal_render r [(k, v)] = r" by (rule literal_render_no_close)
      with nc show ?thesis by (simp add: tokens_unclosed)
    next
      case False
      then show ?thesis by (simp add: tokens.simps)
    qed
    with lr ih2 tk have b: "tokens (literal_render (c # r) [(k, v)])
            = concat (map (subst_tokens k v) (tokens (c # r)))"
      by simp
    from a b show ?thesis ..
  qed
qed

lemma holes_chars: "holes (map Chr v @ ts) = holes ts"
  by (induction v) auto

lemma holes_append: "holes (xs @ ys) = holes xs @ holes ys"
  by (induction xs rule: holes.induct) auto

lemma holes_subst_tokens:
  "holes (concat (map (subst_tokens k v) ts)) = filter (\<lambda>g. g \<noteq> k) (holes ts)"
proof (induction ts rule: holes.induct)
  case 1
  show ?case by simp
next
  case (2 c ts)
  then show ?case by simp
next
  case (3 g ts)
  then show ?case using holes_chars [of v "concat (map (subst_tokens k v) ts)"] by simp
qed

lemma holes_after_step:
  assumes "CHR ''}'' \<notin> set k" "CHR ''{'' \<notin> set v" "list_all open_free (holes (tokens s))"
  shows "holes (tokens (literal_render s [(k, v)])) = filter (\<lambda>g. g \<noteq> k) (holes (tokens s))"
  using conjunct2 [OF literal_render_tokens [OF assms]] by (simp only: holes_subst_tokens)

lemma sublist_placeholder_skip:
  "CHR ''{'' \<notin> set pre \<Longrightarrow> sublist (placeholder p) (pre @ u) \<Longrightarrow> sublist (placeholder p) u"
proof (induction pre)
  case Nil
  then show ?case by simp
next
  case (Cons x pre)
  from Cons.prems(1) have "\<not> prefix (placeholder p) (x # pre @ u)"
    by (auto simp: placeholder_def)
  with Cons.prems(2) have "sublist (placeholder p) (pre @ u)"
    by (simp add: sublist_Cons_right)
  with Cons show ?case by simp
qed

lemma occurrence_is_hole:
  assumes p: "CHR ''}'' \<notin> set p"
  shows "list_all open_free (holes (tokens t)) \<Longrightarrow> sublist (placeholder p) t \<Longrightarrow>
         p \<in> set (holes (tokens t))"
proof (induction t rule: tokens.induct)
  case 1
  then show ?case by (simp add: placeholder_def)
next
  case (2 c r)
  from "2.prems"(2) have alt: "prefix (placeholder p) (c # r) \<or> sublist (placeholder p) r"
    by (simp add: sublist_Cons_right)
  show ?case
  proof (cases "c = CHR ''{'' \<and> dropWhile not_close r \<noteq> []")
    case True
    let ?g = "takeWhile not_close r" and ?rest = "tl (dropWhile not_close r)"
    from True have c: "c = CHR ''{''" and cl: "dropWhile not_close r \<noteq> []" by simp_all
    note r = closed_split(1) [OF cl] and g = closed_split(2) [OF cl]
    from True have tk: "tokens (c # r) = Hole ?g # tokens ?rest" by (simp add: tokens.simps)
    from tk "2.prems"(1) have og: "CHR ''{'' \<notin> set ?g" by (simp add: open_free_def)
    from tk "2.prems"(1) have wf: "list_all open_free (holes (tokens ?rest))" by simp
    have s: "c # r = CHR ''{'' # ?g @ CHR ''}'' # ?rest" using c r by simp
    from alt show ?thesis
    proof
      assume "prefix (placeholder p) (c # r)"
      then have "prefix (placeholder p) (CHR ''{'' # ?g @ CHR ''}'' # ?rest)" using s by simp
      then have "p = ?g" by (simp only: prefix_placeholder_hole [OF p g])
      with tk show ?thesis by simp
    next
      assume "sublist (placeholder p) r"
      then have "sublist (placeholder p) ((?g @ [CHR ''}'']) @ ?rest)" using r by simp
      moreover have "CHR ''{'' \<notin> set (?g @ [CHR ''}''])" using og by simp
      ultimately have "sublist (placeholder p) ?rest" by (rule sublist_placeholder_skip [rotated])
      with "2.IH"(1) [OF True wf] tk show ?thesis by simp
    qed
  next
    case False
    then have tk: "tokens (c # r) = Chr c # tokens r" by (simp add: tokens.simps)
    with "2.prems"(1) have wf: "list_all open_free (holes (tokens r))" by simp
    have "\<not> prefix (placeholder p) (c # r)"
    proof
      assume pp: "prefix (placeholder p) (c # r)"
      then have c: "c = CHR ''{''" by (simp add: placeholder_def)
      with False have "dropWhile not_close r = []" by simp
      then have "CHR ''}'' \<notin> set r" by (rule unclosed_no_close)
      moreover from pp have "CHR ''}'' \<in> set (c # r)" by (rule prefix_placeholder_needs_close)
      ultimately show False using c by simp
    qed
    with alt have "sublist (placeholder p) r" by simp
    with "2.IH"(2) [OF False wf] tk show ?thesis by simp
  qed
qed


lemma plain_key_no_braces:
  "plain_key k \<Longrightarrow> CHR ''{'' \<notin> set k \<and> CHR ''}'' \<notin> set k"
  by (auto simp: plain_key_def plain_char_def regex_syntax_chars_def list_all_iff)

lemma holes_after_render:
  assumes "list_all plain_key (map fst es)"
    and "list_all (\<lambda>v. CHR ''{'' \<notin> set v \<and> CHR ''$'' \<notin> set v) (map snd es)"
    and "list_all open_free (holes (tokens t))"
  shows "holes (tokens (foldl (\<lambda>t (k, v). literal_render t [(k, v)]) t es))
         = filter (\<lambda>g. g \<notin> set (map fst es)) (holes (tokens t))"
  using assms
proof (induction es arbitrary: t)
  case Nil
  then show ?case by simp
next
  case (Cons e es)
  obtain k v where e: "e = (k, v)" by (cases e)
  from Cons.prems(1) e have k: "CHR ''}'' \<notin> set k" and ks: "list_all plain_key (map fst es)"
    using plain_key_no_braces [of k] by simp_all
  from Cons.prems(2) e have v: "CHR ''{'' \<notin> set v"
    and vs: "list_all (\<lambda>v. CHR ''{'' \<notin> set v \<and> CHR ''$'' \<notin> set v) (map snd es)"
    by simp_all
  let ?t = "literal_render t [(k, v)]"
  have h: "holes (tokens ?t) = filter (\<lambda>g. g \<noteq> k) (holes (tokens t))"
    by (rule holes_after_step [OF k v Cons.prems(3)])
  from Cons.prems(3) have wf: "list_all open_free (holes (tokens ?t))"
    by (simp add: h list_all_iff)
  have "holes (tokens (foldl (\<lambda>t (k, v). literal_render t [(k, v)]) ?t es))
        = filter (\<lambda>g. g \<notin> set (map fst es)) (holes (tokens ?t))"
    by (rule Cons.IH [OF ks vs wf])
  also have "\<dots> = filter (\<lambda>g. g \<notin> set (map fst (e # es))) (holes (tokens t))"
    using e by (auto simp: h intro: filter_cong)
  finally have fin: "holes (tokens (foldl (\<lambda>t (k, v). literal_render t [(k, v)]) ?t es))
        = filter (\<lambda>g. g \<notin> set (map fst (e # es))) (holes (tokens t))" .
  have "foldl (\<lambda>t (k, v). literal_render t [(k, v)]) t (e # es)
        = foldl (\<lambda>t (k, v). literal_render t [(k, v)]) ?t es"
    by (simp only: e foldl_Cons prod.case)
  with fin show ?case by (simp only:)
qed

lemma holes_of_body:
  assumes "list_all plain_key (extractInputs body)"
  shows "list_all open_free (holes (tokens body))"
proof -
  have "open_free g" if "g \<in> set (holes (tokens body))" for g
  proof (cases "g = []")
    case True
    then show ?thesis by (simp add: open_free_def)
  next
    case False
    with that have "g \<in> set (regex_exec_all body)" by (simp add: regex_exec_all_tokens)
    then have "g \<in> set (extractInputs body)" by (simp add: set_extractInputs)
    with assms have "plain_key g" by (simp add: list_all_iff)
    then show ?thesis using plain_key_no_braces [of g] by (simp add: open_free_def)
  qed
  then show ?thesis by (simp add: list_all_iff)
qed

text \<open>
  Claim C3, as stated: when the values supply every extracted placeholder name, the text
  \<open>get_prompt_by_name\<close> returns contains no occurrence of the placeholder of any such
  name. A value is inserted as it stands, so a value that itself holds the placeholder
  brings it back: the stored body \<open>{a}\<close> with the value \<open>{a}\<close> for \<open>a\<close> renders to
  \<open>{a}\<close>.
\<close>

theorem placeholder_left_counterexample:
  "extractInputs ''{a}'' = [''a'']
   \<and> map fst [(''a'', ''{a}'')] = [''a'']
   \<and> get_prompt_by_name ''greet'' (Some [(''a'', ''{a}'')]) sample_db = Some (ok_result ''{a}'')
   \<and> sublist (placeholder ''a'') ''{a}''"
proof -
  have e: "extractInputs ''{a}'' = [''a'']" by code_simp
  have g: "get_prompt_by_name ''greet'' (Some [(''a'', ''{a}'')]) sample_db
           = Some (ok_result ''{a}'')"
    by (simp add: sample_defs render_defs tool_defs)
  have s: "sublist (placeholder ''a'') ''{a}''" by (simp add: placeholder_def)
  from e g s show ?thesis by simp
qed

text \<open>
  Claim C3, amended. For every template body and every values mapping whose keys are
  plain text in a pattern, whose values contain neither an opening brace nor a dollar
  sign, and which has an entry for every extracted placeholder name, the render loop
  yields a text that contains no occurrence of the placeholder of any extracted name;
  this text is what \<open>get_prompt_by_name\<close> returns for a stored template with that
  body when no required input is missing.
\<close>

theorem rendered_text_has_no_placeholder_left:
  assumes keys: "list_all plain_key (map fst entries)"
    and vals: "list_all (\<lambda>v. CHR ''{'' \<notin> set v \<and> CHR ''$'' \<notin> set v) (map snd entries)"
    and cover: "set (extractInputs body) \<subseteq> set (map fst entries)"
  shows "\<exists>t. render body entries = Some t
           \<and> (\<forall>p \<in> set (extractInputs body). \<not> sublist (placeholder p) t)
           \<and> (select_template_by_name db name = Some tpl \<and> t_template tpl = body
                \<and> missingInputs (select_inputs db (t_id tpl)) entries = []
              \<longrightarrow> get_prompt_by_name name (Some entries) db = Some (ok_result t))"
proof -
  let ?t = "foldl (\<lambda>t (k, v). literal_render t [(k, v)]) body entries"
  from vals have vals': "list_all (\<lambda>v. CHR ''$'' \<notin> set v) (map snd entries)"
    by (simp add: list_all_iff)
  have r: "render body entries = Some ?t"
    by (rule render_sequential [OF keys vals'])
  from keys cover have names: "list_all plain_key (extractInputs body)"
    by (auto simp: list_all_iff)
  note wf = holes_of_body [OF names]
  have h: "holes (tokens ?t) = filter (\<lambda>g. g \<notin> set (map fst entries)) (holes (tokens body))"
    by (rule holes_after_render [OF keys vals wf])
  from wf have wft: "list_all open_free (holes (tokens ?t))"
    by (simp add: h list_all_iff)
  have clean: "\<not> sublist (placeholder p) ?t" if p: "p \<in> set (extractInputs body)" for p
  proof
    assume occ: "sublist (placeholder p) ?t"
    from p names have "plain_key p" by (simp add: list_all_iff)
    then have "CHR ''}'' \<notin> set p" using plain_key_no_braces [of p] by simp
    from occurrence_is_hole [OF this wft occ] have "p \<in> set (holes (tokens ?t))" .
    then have "p \<notin> set (map fst entries)" by (simp add: h)
    with p cover show False by blast
  qed
  have g: "get_prompt_by_name name (Some entries) db = Some (ok_result ?t)"
    if "select_template_by_name db name = Some tpl" "t_template tpl = body"
      "missingInputs (select_inputs db (t_id tpl)) entries = []"
    using that r by (simp add: get_prompt_by_name_rendered)
  from r clean g show ?thesis by blast
qed

theorem rendered_text_has_no_placeholder_left_witness:
  "list_all plain_key (map fst [(''a'', ''Ada'')])
   \<and> list_all (\<lambda>v. CHR ''{'' \<notin> set v \<and> CHR ''$'' \<notin> set v) (map snd [(''a'', ''Ada'')])
   \<and> set (extractInputs ''{a}'') \<subseteq> set (map fst [(''a'', ''Ada'')])
   \<and> render ''{a}'' [(''a'', ''Ada'')] = Some ''Ada''
   \<and> \<not> sublist (placeholder ''a'') ''Ada''
   \<and> get_prompt_by_name ''greet'' (Some [(''a'', ''Ada'')]) sample_db = Some (ok_result ''Ada'')"
proof -
  have e: "extractInputs ''{a}'' = [''a'']" by code_simp
  have h1: "list_all plain_key (map fst [(''a'', ''Ada'')])" by (simp add: render_defs)
  have h2: "list_all (\<lambda>v. CHR ''{'' \<notin> set v \<and> CHR ''$'' \<notin> set v) (map snd [(''a'', ''Ada'')])"
    by simp
  have h3: "set (extractInputs ''{a}'') \<subseteq> set (map fst [(''a'', ''Ada'')])" by (simp add: e)
  have r: "render ''{a}'' [(''a'', ''Ada'')] = Some ''Ada''" by (simp add: render_defs)
  have sel: "select_template_by_name sample_db ''greet'' = Some (sample_template ''t1'' ''greet'' ''{a}'')"
    by (simp add: select_template_by_name_def sample_defs)
  have b: "t_template (sample_template ''t1'' ''greet'' ''{a}'') = ''{a}''"
    by (simp add: sample_template_def)
  have m: "missingInputs (select_inputs sample_db (t_id (sample_template ''t1'' ''greet'' ''{a}'')))
             [(''a'', ''Ada'')] = []"
    by (simp add: sample_defs tool_defs)
  from rendered_text_has_no_placeholder_left [OF h1 h2 h3, of sample_db "''greet''"
         "sample_template ''t1'' ''greet'' ''{a}''"]
  obtain t where t: "render ''{a}'' [(''a'', ''Ada'')] = Some t"
    and c: "\<forall>p \<in> set (extractInputs ''{a}''). \<not> sublist (placeholder p) t"
    and g: "select_template_by_name sample_db ''greet'' = Some (sample_template ''t1'' ''greet'' ''{a}'')
            \<and> t_template (sample_template ''t1'' ''greet'' ''{a}'') = ''{a}''
            \<and> missingInputs (select_inputs sample_db (t_id (sample_template ''t1'' ''greet'' ''{a}'')))
                 [(''a'', ''Ada'')] = []
          \<longrightarrow> get_prompt_by_name ''greet'' (Some [(''a'', ''Ada'')]) sample_db = Some (ok_result t)"
    by blast
  from t r have tt: "t = ''Ada''" by simp
  from c e have c': "\<not> sublist (placeholder ''a'') t" by simp
  from g sel b m have g': "get_prompt_by_name ''greet'' (Some [(''a'', ''Ada'')]) sample_db
        = Some (ok_result t)"
    by blast
  from h1 h2 h3 r c' g' show ?thesis unfolding tt by blast
qed

section \<open>Properties of the bootstrap\<close>









section \<open>Properties of the tools\<close>

lemma select_template_by_id_None:
  "tid \<notin> set (map t_id (promptTemplates db)) \<Longrightarrow> select_template_by_id db tid = None"
  by (auto simp: select_template_by_id_def find_None_iff)

lemma select_template_by_id_Some:
  "select_template_by_id db tid = Some existing \<Longrightarrow>
   existing \<in> set (promptTemplates db) \<and> t_id existing = tid"
  by (auto simp: select_template_by_id_def find_Some_iff)

lemma map_name_new_inputs: "map i_name (new_inputs uuid now tid names) = names"
proof -
  have "\<And>xs. map i_name (map (\<lambda>(k, inputName).
            \<lparr>i_id = uuid (Suc k), i_templateId = tid, i_name = inputName,
             i_description = None, i_required = True, i_createdAt = now\<rparr>) xs) = map snd xs"
    by (induct_tac xs) auto
  then show ?thesis by (simp add: new_inputs_def del: map_map)
qed

lemma filter_new_inputs:
  "filter (\<lambda>i. i_templateId i = tid) (new_inputs uuid now tid names) = new_inputs uuid now tid names"
  by (auto simp: new_inputs_def filter_id_conv)

lemma insert_inputs_Inr:
  "insert_inputs db rows = Inr db' \<Longrightarrow>
   promptInputs db' = promptInputs db @ rows \<and> promptTemplates db' = promptTemplates db"
  by (auto simp: insert_inputs_def split: if_splits)

lemma no_inputs_of_fresh_id:
  assumes ri: "\<forall>i \<in> set (promptInputs db). i_templateId i \<in> set (map t_id (promptTemplates db))"
    and fresh: "tid \<notin> set (map t_id (promptTemplates db))"
  shows "filter (\<lambda>i. i_templateId i = tid) (promptInputs db) = []"
proof -
  have "i_templateId i \<noteq> tid" if "i \<in> set (promptInputs db)" for i
  proof
    assume "i_templateId i = tid"
    with ri that have "tid \<in> set (map t_id (promptTemplates db))" by metis
    with fresh show False by simp
  qed
  then show ?thesis by (simp add: filter_empty_conv)
qed

lemma fresh_id_filter:
  "tid \<notin> set (map t_id ts) \<Longrightarrow> filter (\<lambda>t. t_id t = tid) ts = []"
  by (induction ts) auto

lemma replace_inputs_Inr:
  assumes "replace_inputs uuid now db tid body = Inr db'"
  shows "map i_name (select_inputs db' tid) = extractInputs body
         \<and> promptTemplates db' = promptTemplates db"
proof -
  let ?db2 = "delete_inputs db tid"
  have sel2: "filter (\<lambda>i. i_templateId i = tid) (promptInputs ?db2) = []"
    by (simp add: delete_inputs_def)
  have t2: "promptTemplates ?db2 = promptTemplates db"
    by (simp add: delete_inputs_def)
  show ?thesis
  proof (cases "extractInputs body = []")
    case True
    with assms have "db' = ?db2" by (simp add: replace_inputs_def Let_def)
    with sel2 t2 True show ?thesis by (simp add: select_inputs_def)
  next
    case False
    with assms have i3: "insert_inputs ?db2 (new_inputs uuid now tid (extractInputs body)) = Inr db'"
      by (simp add: replace_inputs_def Let_def split: sum.splits)
    from insert_inputs_Inr [OF i3] sel2 t2 show ?thesis
      by (simp add: select_inputs_def filter_new_inputs map_name_new_inputs)
  qed
qed

lemma replace_inputs_templates:
  "replace_inputs uuid now db tid body = Inr db' \<Longrightarrow> promptTemplates db' = promptTemplates db"
  "replace_inputs uuid now db tid body = Inl (e, dbe) \<Longrightarrow> promptTemplates dbe = promptTemplates db"
  by (auto simp: replace_inputs_def Let_def delete_inputs_def
      split: if_splits sum.splits dest: insert_inputs_Inr)

lemma apply_update_simps:
  "t_id (apply_update name description template t) = t_id t"
  "t_updatedAt (apply_update name description template t) = t_updatedAt t"
  "t_createdAt (apply_update name description template t) = t_createdAt t"
  "t_template (apply_update name description (Some body) t) = body"
  "t_template (apply_update name description None t) = t_template t"
  by (simp_all add: apply_update_def)

lemma update_template_rows:
  assumes "t \<in> set (promptTemplates (update_template db tid name description template))"
  obtains t0 where "t0 \<in> set (promptTemplates db)" "t_id t0 = t_id t"
    and "t_id t0 = tid \<Longrightarrow> t = apply_update name description template t0"
    and "t_id t0 \<noteq> tid \<Longrightarrow> t = t0"
proof -
  from assms obtain t0 where m: "t0 \<in> set (promptTemplates db)"
    and e: "t = (if t_id t0 = tid then apply_update name description template t0 else t0)"
    by (auto simp: update_template_def)
  show thesis
  proof (rule that [of t0])
    show "t0 \<in> set (promptTemplates db)" by (rule m)
    show "t_id t0 = t_id t" using e by (simp add: apply_update_simps)
    show "t_id t0 = tid \<Longrightarrow> t = apply_update name description template t0" using e by simp
    show "t_id t0 \<noteq> tid \<Longrightarrow> t = t0" using e by simp
  qed
qed

lemma update_template_ids:
  "map t_id (promptTemplates (update_template db tid name description template))
   = map t_id (promptTemplates db)"
  by (simp add: update_template_def apply_update_simps)

lemma save_success:
  assumes s: "save_prompt_template k uuid now name description body (db, cat) = (r, db', cat')"
    and ok: "\<not> r_isError r"
  shows "\<exists>db1. insert_template db
               \<lparr>t_id = uuid 0, t_name = name, t_description = description,
                t_template = body, t_createdAt = now, t_updatedAt = now\<rparr> = Inr db1
         \<and> (if extractInputs body \<noteq> []
            then insert_inputs db1 (new_inputs uuid now (uuid 0) (extractInputs body)) = Inr db'
            else db' = db1)"
proof -
  let ?row = "\<lparr>t_id = uuid 0, t_name = name, t_description = description,
                t_template = body, t_createdAt = now, t_updatedAt = now\<rparr>"
  show ?thesis
  proof (cases "insert_template db ?row")
    case (Inl e)
    with s ok show ?thesis
      by (auto simp: save_prompt_template_def Let_def error_result_def)
  next
    case (Inr db1)
    let ?step = "if extractInputs body \<noteq> []
                 then insert_inputs db1 (new_inputs uuid now (t_id ?row) (extractInputs body))
                 else Inr db1"
    from Inr have "save_prompt_template k uuid now name description body (db, cat) = (case ?step of
          Inl e \<Rightarrow> (error_result (''Error saving prompt template: '' @ e), db1, cat)
        | Inr db2 \<Rightarrow>
           (case server_prompt k (t_name ?row) (registration ?row (select_inputs db2 (t_id ?row))) cat of
              Inl e \<Rightarrow> (error_result (''Error saving prompt template: '' @ e), db2, cat)
            | Inr cat'' \<Rightarrow>
               (ok_result
                  (''Successfully saved prompt template '' @ quoted name @ '' with ''
                   @ show_nat (length (extractInputs body)) @ '' input parameters: ''
                   @ join (extractInputs body)
                   @ ''. The prompt is now available in the prompts list.''),
                db2, cat'')))"
      by (simp add: save_prompt_template_def Let_def)
    with s have s': "(case ?step of
          Inl e \<Rightarrow> (error_result (''Error saving prompt template: '' @ e), db1, cat)
        | Inr db2 \<Rightarrow>
           (case server_prompt k (t_name ?row) (registration ?row (select_inputs db2 (t_id ?row))) cat of
              Inl e \<Rightarrow> (error_result (''Error saving prompt template: '' @ e), db2, cat)
            | Inr cat'' \<Rightarrow>
               (ok_result
                  (''Successfully saved prompt template '' @ quoted name @ '' with ''
                   @ show_nat (length (extractInputs body)) @ '' input parameters: ''
                   @ join (extractInputs body)
                   @ ''. The prompt is now available in the prompts list.''),
                db2, cat''))) = (r, db', cat')"
      by (simp only:)
    have "?step = Inr db'"
    proof (cases ?step)
      case (Inl e)
      with s' ok show ?thesis by (auto simp: error_result_def)
    next
      case (Inr db2)
      with s' ok show ?thesis
        by (cases "server_prompt k (t_name ?row) (registration ?row (select_inputs db2 (t_id ?row))) cat")
           (auto simp: error_result_def)
    qed
    with Inr show ?thesis by (simp split: if_splits)
  qed
qed

lemma save_inputs:
  assumes ri: "\<forall>i \<in> set (promptInputs db). i_templateId i \<in> set (map t_id (promptTemplates db))"
    and s: "save_prompt_template k uuid now name description body (db, cat) = (r, db', cat')"
    and ok: "\<not> r_isError r"
  shows "map i_name (select_inputs db' (uuid 0)) = extractInputs body
         \<and> map t_template (filter (\<lambda>t. t_id t = uuid 0) (promptTemplates db')) = [body]"
proof -
  let ?row = "\<lparr>t_id = uuid 0, t_name = name, t_description = description,
             t_template = body, t_createdAt = now, t_updatedAt = now\<rparr>"
  from save_success [OF s ok] obtain db1 where i1: "insert_template db ?row = Inr db1"
    and step: "if extractInputs body \<noteq> []
            then insert_inputs db1 (new_inputs uuid now (uuid 0) (extractInputs body)) = Inr db'
            else db' = db1"
    by blast
  from i1 have fresh: "uuid 0 \<notin> set (map t_id (promptTemplates db))"
    and db1: "db1 = db\<lparr>promptTemplates := promptTemplates db @ [?row]\<rparr>"
    by (auto simp: insert_template_def split: if_splits)
  note none = no_inputs_of_fresh_id [OF ri fresh]
  note tf = fresh_id_filter [OF fresh]
  show ?thesis
  proof (cases "extractInputs body = []")
    case True
    with step have "db' = db1" by simp
    with db1 none tf True show ?thesis by (simp add: select_inputs_def)
  next
    case False
    with step have i2: "insert_inputs db1 (new_inputs uuid now (uuid 0) (extractInputs body)) = Inr db'"
      by simp
    from insert_inputs_Inr [OF i2] db1 none tf show ?thesis
      by (simp add: select_inputs_def filter_new_inputs map_name_new_inputs)
  qed
qed

lemma update_success:
  assumes u: "update_prompt_template k uuid now tid name description template (db, cat)
              = (r, db', cat')"
    and ok: "\<not> r_isError r"
  shows "\<exists>existing. select_template_by_id db tid = Some existing
         \<and> (case template of
               None \<Rightarrow> db' = update_template db tid name description template
             | Some body \<Rightarrow>
                 replace_inputs uuid now (update_template db tid name description template) tid body
                 = Inr db')"
proof (cases "select_template_by_id db tid")
  case None
  with u ok show ?thesis
    by (auto simp: update_prompt_template_def not_found_id_def error_result_def)
next
  case (Some existing)
  show ?thesis
  proof (cases "name = None \<and> description = None \<and> template = None")
    case True
    with u ok Some show ?thesis
      by (auto simp: update_prompt_template_def error_result_def)
  next
    case False
    let ?db1 = "update_template db tid name description template"
    let ?step = "case template of None \<Rightarrow> Inr ?db1
                 | Some body \<Rightarrow> replace_inputs uuid now ?db1 tid body"
    from u Some False have u': "(case ?step of
          Inl (e, dbe) \<Rightarrow> (error_result (''Error updating prompt template: '' @ e), dbe, cat)
        | Inr db4 \<Rightarrow>
           (case server_prompt k (t_name (apply_update name description template existing))
                   (registration (apply_update name description template existing)
                      (select_inputs db4 tid)) cat of
              Inl e \<Rightarrow> (error_result (''Error updating prompt template: '' @ e), db4, cat)
            | Inr cat'' \<Rightarrow>
               (ok_result
                  (''Successfully updated prompt template ''
                   @ quoted (t_name (apply_update name description template existing))
                   @ ''. The prompt list has been updated.''),
                db4, cat''))) = (r, db', cat')"
      by (simp add: update_prompt_template_def Let_def)
    have "?step = Inr db'"
    proof (cases ?step)
      case (Inl p)
      obtain e dbe where "p = (e, dbe)" by (cases p)
      with Inl u' ok show ?thesis by (auto simp: error_result_def)
    next
      case (Inr db4)
      with u' ok show ?thesis
        by (cases "server_prompt k (t_name (apply_update name description template existing))
                   (registration (apply_update name description template existing)
                      (select_inputs db4 tid)) cat")
           (auto simp: error_result_def)
    qed
    with Some show ?thesis by (cases template) simp_all
  qed
qed


lemma update_body_inputs:
  assumes u: "update_prompt_template k uuid now tid name description (Some body) (db, cat)
              = (r, db', cat')"
    and ok: "\<not> r_isError r"
  shows "map i_name (select_inputs db' tid) = extractInputs body
         \<and> (\<forall>t \<in> set (promptTemplates db'). t_id t = tid \<longrightarrow> t_template t = body)
         \<and> tid \<in> set (map t_id (promptTemplates db'))"
proof -
  let ?db1 = "update_template db tid name description (Some body)"
  from update_success [OF u ok] obtain existing where
    ex: "select_template_by_id db tid = Some existing"
    and ri: "replace_inputs uuid now ?db1 tid body = Inr db'"
    by auto
  from replace_inputs_Inr [OF ri] have names: "map i_name (select_inputs db' tid) = extractInputs body"
    and t: "promptTemplates db' = promptTemplates ?db1"
    by simp_all
  have tb: "t_template t = body" if "t \<in> set (promptTemplates ?db1)" "t_id t = tid" for t
    using that(1)
  proof (rule update_template_rows)
    fix t0 assume "t_id t0 = t_id t" and "t_id t0 = tid \<Longrightarrow> t = apply_update name description (Some body) t0"
    with that(2) show ?thesis by (simp add: apply_update_simps)
  qed
  from select_template_by_id_Some [OF ex] have "tid \<in> set (map t_id (promptTemplates db))"
    by (metis image_eqI list.set_map)
  then have tin: "tid \<in> set (map t_id (promptTemplates ?db1))"
    by (simp only: update_template_ids)
  from names t tb tin show ?thesis by simp
qed

lemma update_no_body_inputs:
  "promptInputs (fst (snd (update_prompt_template k uuid now tid name description None (db, cat))))
   = promptInputs db"
  by (auto simp: update_prompt_template_def Let_def update_template_def
      split: option.splits if_splits sum.splits)

lemma update_keeps_updatedAt_general:
  "map t_updatedAt
     (promptTemplates
        (fst (snd (update_prompt_template k uuid now tid name description template (db, cat)))))
   = map t_updatedAt (promptTemplates db)"
proof -
  let ?db1 = "update_template db tid name description template"
  let ?step = "case template of None \<Rightarrow> Inr ?db1
               | Some body \<Rightarrow> replace_inputs uuid now ?db1 tid body"
  have u: "map t_updatedAt (promptTemplates ?db1) = map t_updatedAt (promptTemplates db)"
    by (simp add: update_template_def apply_update_def)
  have a: "?step = Inr db4 \<Longrightarrow> promptTemplates db4 = promptTemplates ?db1" for db4
    by (cases template) (auto dest: replace_inputs_templates)
  have b: "?step = Inl (e, dbe) \<Longrightarrow> promptTemplates dbe = promptTemplates ?db1" for e dbe
    by (cases template) (auto dest: replace_inputs_templates)
  show ?thesis
  proof (cases "select_template_by_id db tid")
    case None
    then show ?thesis by (simp add: update_prompt_template_def)
  next
    case (Some existing)
    show ?thesis
    proof (cases "name = None \<and> description = None \<and> template = None")
      case True
      with Some show ?thesis by (simp add: update_prompt_template_def)
    next
      case False
      show ?thesis
      proof (cases ?step)
        case (Inl p)
        obtain e dbe where p: "p = (e, dbe)" by (cases p)
        with Inl b have "promptTemplates dbe = promptTemplates ?db1" by simp
        with Some False Inl p u show ?thesis
          by (simp add: update_prompt_template_def Let_def)
      next
        case (Inr db4)
        with a have "promptTemplates db4 = promptTemplates ?db1" by simp
        with Some False Inr u show ?thesis
          by (simp add: update_prompt_template_def Let_def split: sum.splits)
      qed
    qed
  qed
qed

lemma delete_cascade:
  assumes d: "delete_prompt_template k tid (db, cat) = (r, db', cat')"
    and ok: "\<not> r_isError r"
  shows "select_inputs db' tid = []
     \<and> tid \<notin> set (map t_id (promptTemplates db'))
     \<and> (\<exists>existing. select_template_by_id db tid = Some existing
          \<and> t_name existing \<notin> set (map fst cat')
          \<and> (length (filter (\<lambda>t. t_name t = t_name existing) (promptTemplates db)) \<le> 1
               \<longrightarrow> get_prompt_by_name (t_name existing) inputs db'
                    = Some (not_found_name (t_name existing))))"
proof -
  from d ok obtain existing where ex: "select_template_by_id db tid = Some existing"
    by (cases "select_template_by_id db tid")
       (auto simp: delete_prompt_template_def not_found_id_def error_result_def)
  from d ok ex have rm: "server_removePrompt k (t_name existing) cat = Inr cat'"
    and db': "db' = delete_template db tid"
    by (auto simp: delete_prompt_template_def error_result_def split: sum.splits)
  from rm have cat': "cat' = AList.delete (t_name existing) cat"
    by (auto simp: server_removePrompt_def split: option.splits)
  have a: "select_inputs db' tid = []"
    by (simp add: db' select_inputs_def delete_template_def)
  have b: "tid \<notin> set (map t_id (promptTemplates db'))"
    by (auto simp: db' delete_template_def)
  have c: "t_name existing \<notin> set (map fst cat')"
    using delete_notin_dom [of "t_name existing" cat] by (simp add: cat')
  from ex have mem: "existing \<in> set (promptTemplates db)" and eid: "t_id existing = tid"
    by (auto simp: select_template_by_id_def find_Some_iff)
  have e: "get_prompt_by_name (t_name existing) inputs db' = Some (not_found_name (t_name existing))"
    if u: "length (filter (\<lambda>t. t_name t = t_name existing) (promptTemplates db)) \<le> 1"
  proof -
    have "\<And>t. t \<in> set (promptTemplates db) \<Longrightarrow> t_name t = t_name existing \<Longrightarrow> t = existing"
    proof -
      fix t assume t: "t \<in> set (promptTemplates db)" "t_name t = t_name existing"
      let ?f = "filter (\<lambda>t. t_name t = t_name existing) (promptTemplates db)"
      from t mem have "t \<in> set ?f" "existing \<in> set ?f" by auto
      with u show "t = existing"
        by (cases ?f) (auto split: if_splits)
    qed
    then have "select_template_by_name db' (t_name existing) = None"
      using eid by (auto simp: select_template_by_name_def find_None_iff db' delete_template_def)
    then show ?thesis by (simp add: get_prompt_by_name_def)
  qed
  from a b c e ex show ?thesis by blast
qed

lemma references_ok_insert_template:
  "references_ok db \<Longrightarrow> insert_template db row = Inr db1 \<Longrightarrow> references_ok db1"
  by (auto simp: references_ok_def insert_template_def list_all_iff split: if_splits)

lemma templateId_new_inputs:
  "i \<in> set (new_inputs uuid now tid names) \<Longrightarrow> i_templateId i = tid"
  by (auto simp: new_inputs_def)

lemma references_ok_insert_inputs:
  assumes "references_ok db" and "tid \<in> set (map t_id (promptTemplates db))"
    and "insert_inputs db (new_inputs uuid now tid names) = Inr db2"
  shows "references_ok db2"
proof -
  from insert_inputs_Inr [OF assms(3)]
  have i: "promptInputs db2 = promptInputs db @ new_inputs uuid now tid names"
    and t: "promptTemplates db2 = promptTemplates db" by simp_all
  have "i_templateId i \<in> set (map t_id (promptTemplates db))" if "i \<in> set (promptInputs db2)" for i
  proof (cases "i \<in> set (promptInputs db)")
    case True
    with assms(1) show ?thesis by (simp add: references_ok_def list_all_iff)
  next
    case False
    with that i have "i \<in> set (new_inputs uuid now tid names)" by simp
    then have "i_templateId i = tid" by (rule templateId_new_inputs)
    with assms(2) show ?thesis by simp
  qed
  then show ?thesis by (simp add: references_ok_def list_all_iff t)
qed

lemma references_ok_delete_inputs:
  "references_ok db \<Longrightarrow> references_ok (delete_inputs db tid)"
  by (simp add: references_ok_def delete_inputs_def list_all_iff)

lemma references_ok_update_template:
  "references_ok db \<Longrightarrow> references_ok (update_template db tid name description template)"
proof -
  assume "references_ok db"
  moreover have "promptInputs (update_template db tid name description template) = promptInputs db"
    by (simp add: update_template_def)
  ultimately show ?thesis
    by (simp add: references_ok_def update_template_ids)
qed

lemma references_ok_delete_template:
  "references_ok db \<Longrightarrow> references_ok (delete_template db tid)"
proof -
  assume ok: "references_ok db"
  have "i_templateId i \<in> set (map t_id (promptTemplates (delete_template db tid)))"
    if "i \<in> set (promptInputs (delete_template db tid))" for i
  proof -
    from that have m: "i \<in> set (promptInputs db)" and ne: "i_templateId i \<noteq> tid"
      by (simp_all add: delete_template_def)
    from ok m obtain t where "t \<in> set (promptTemplates db)" "t_id t = i_templateId i"
      by (auto simp: references_ok_def list_all_iff)
    with ne have "t \<in> set (promptTemplates (delete_template db tid))"
      by (simp add: delete_template_def)
    with \<open>t_id t = i_templateId i\<close> show ?thesis by (metis image_eqI list.set_map)
  qed
  then show ?thesis by (simp add: references_ok_def list_all_iff)
qed

lemma references_ok_replace_inputs:
  assumes "references_ok db" and "tid \<in> set (map t_id (promptTemplates db))"
  shows "replace_inputs uuid now db tid body = Inr db' \<Longrightarrow> references_ok db'"
    and "replace_inputs uuid now db tid body = Inl (e, dbe) \<Longrightarrow> references_ok dbe"
proof -
  let ?db2 = "delete_inputs db tid"
  note ok2 = references_ok_delete_inputs [OF assms(1), of tid]
  have t2: "tid \<in> set (map t_id (promptTemplates ?db2))"
    using assms(2) by (simp add: delete_inputs_def)
  show "references_ok db'" if r: "replace_inputs uuid now db tid body = Inr db'"
  proof (cases "extractInputs body = []")
    case True
    with r have "db' = ?db2" by (simp add: replace_inputs_def Let_def)
    with ok2 show ?thesis by simp
  next
    case False
    with r have "insert_inputs ?db2 (new_inputs uuid now tid (extractInputs body)) = Inr db'"
      by (simp add: replace_inputs_def Let_def split: sum.splits)
    from references_ok_insert_inputs [OF ok2 t2 this] show ?thesis .
  qed
  show "references_ok dbe" if r: "replace_inputs uuid now db tid body = Inl (e, dbe)"
  proof -
    from r have "dbe = ?db2"
      by (simp add: replace_inputs_def Let_def split: if_splits sum.splits)
    with ok2 show ?thesis by simp
  qed
qed

lemma save_db_cases:
  "fst (snd (save_prompt_template k uuid now name description body (db, cat))) = db
   \<or> (\<exists>db1. insert_template db
               \<lparr>t_id = uuid 0, t_name = name, t_description = description,
                t_template = body, t_createdAt = now, t_updatedAt = now\<rparr> = Inr db1
         \<and> (fst (snd (save_prompt_template k uuid now name description body (db, cat))) = db1
            \<or> insert_inputs db1 (new_inputs uuid now (uuid 0) (extractInputs body))
               = Inr (fst (snd (save_prompt_template k uuid now name description body (db, cat))))))"
proof -
  let ?row = "\<lparr>t_id = uuid 0, t_name = name, t_description = description,
                t_template = body, t_createdAt = now, t_updatedAt = now\<rparr>"
  show ?thesis
  proof (cases "insert_template db ?row")
    case (Inl e)
    then show ?thesis by (simp add: save_prompt_template_def Let_def)
  next
    case (Inr db1)
    let ?step = "if extractInputs body \<noteq> []
                 then insert_inputs db1 (new_inputs uuid now (t_id ?row) (extractInputs body))
                 else Inr db1"
    show ?thesis
    proof (cases ?step)
      case e: (Inl e)
      with Inr have "fst (snd (save_prompt_template k uuid now name description body (db, cat))) = db1"
        by (simp add: save_prompt_template_def Let_def)
      with Inr show ?thesis by blast
    next
      case s: (Inr db2)
      with Inr have r: "fst (snd (save_prompt_template k uuid now name description body (db, cat))) = db2"
        by (simp add: save_prompt_template_def Let_def split: sum.splits)
      show ?thesis
      proof (cases "extractInputs body = []")
        case True
        with s have "db2 = db1" by simp
        with r Inr show ?thesis by blast
      next
        case False
        with s have "insert_inputs db1 (new_inputs uuid now (uuid 0) (extractInputs body)) = Inr db2"
          by simp
        with r Inr show ?thesis by simp
      qed
    qed
  qed
qed

lemma references_ok_save:
  assumes "references_ok db"
  shows "references_ok (fst (snd (save_prompt_template k uuid now name description body (db, cat))))"
proof -
  let ?row = "\<lparr>t_id = uuid 0, t_name = name, t_description = description,
                t_template = body, t_createdAt = now, t_updatedAt = now\<rparr>"
  let ?r = "fst (snd (save_prompt_template k uuid now name description body (db, cat)))"
  from save_db_cases [of k uuid now name description body db cat]
  consider "?r = db"
    | db1 where "insert_template db ?row = Inr db1" "?r = db1"
    | db1 where "insert_template db ?row = Inr db1"
        "insert_inputs db1 (new_inputs uuid now (uuid 0) (extractInputs body)) = Inr ?r"
    by blast
  then show ?thesis
  proof cases
    case 1
    with assms show ?thesis by simp
  next
    case 2
    with references_ok_insert_template [OF assms 2(1)] show ?thesis by simp
  next
    case 3
    note ok1 = references_ok_insert_template [OF assms 3(1)]
    from 3(1) have "uuid 0 \<in> set (map t_id (promptTemplates db1))"
      by (auto simp: insert_template_def split: if_splits)
    from references_ok_insert_inputs [OF ok1 this 3(2)] show ?thesis .
  qed
qed

lemma update_db_unfold:
  assumes "select_template_by_id db tid = Some existing"
    and "\<not> (name = None \<and> description = None \<and> template = None)"
  shows "fst (snd (update_prompt_template k uuid now tid name description template (db, cat)))
         = (case (case template of
                    None \<Rightarrow> Inr (update_template db tid name description template)
                  | Some body \<Rightarrow>
                      replace_inputs uuid now (update_template db tid name description template)
                        tid body) of
              Inl (e, dbe) \<Rightarrow> dbe
            | Inr db4 \<Rightarrow> db4)"
  unfolding update_prompt_template_def Let_def fst_conv snd_conv assms(1) option.case
    if_not_P [OF assms(2)]
  by (simp split: sum.splits prod.splits)

lemma references_ok_update:
  assumes "references_ok db"
  shows "references_ok
           (fst (snd (update_prompt_template k uuid now tid name description template (db, cat))))"
proof (cases "select_template_by_id db tid")
  case None
  with assms show ?thesis by (simp add: update_prompt_template_def)
next
  case (Some existing)
  show ?thesis
  proof (cases "name = None \<and> description = None \<and> template = None")
    case True
    with Some assms show ?thesis by (simp add: update_prompt_template_def)
  next
    case False
    let ?db1 = "update_template db tid name description template"
    let ?step = "case template of None \<Rightarrow> Inr ?db1
                 | Some body \<Rightarrow> replace_inputs uuid now ?db1 tid body"
    note ok1 = references_ok_update_template [OF assms, of tid name description template]
    note unfold = update_db_unfold [OF Some False, of k uuid now cat]
    from select_template_by_id_Some [OF Some] have "tid \<in> set (map t_id (promptTemplates db))"
      by (metis image_eqI list.set_map)
    then have t1: "tid \<in> set (map t_id (promptTemplates ?db1))"
      by (simp only: update_template_ids)
    show ?thesis
    proof (cases ?step)
      case (Inl p)
      obtain e dbe where p: "p = (e, dbe)" by (cases p)
      have "references_ok dbe"
      proof (cases template)
        case None
        with Inl show ?thesis by simp
      next
        case b: (Some b)
        with Inl p have "replace_inputs uuid now ?db1 tid b = Inl (e, dbe)" by simp
        from references_ok_replace_inputs(2) [OF ok1 t1 this] show ?thesis .
      qed
      moreover from Inl p have "fst (snd (update_prompt_template k uuid now tid name description
                                           template (db, cat))) = dbe"
        by (simp only: unfold sum.case prod.case)
      ultimately show ?thesis by simp
    next
      case (Inr db4)
      have "references_ok db4"
      proof (cases template)
        case None
        with Inr ok1 show ?thesis by simp
      next
        case b: (Some b)
        with Inr have "replace_inputs uuid now ?db1 tid b = Inr db4" by simp
        from references_ok_replace_inputs(1) [OF ok1 t1 this] show ?thesis .
      qed
      moreover from Inr have "fst (snd (update_prompt_template k uuid now tid name description
                                           template (db, cat))) = db4"
        by (simp only: unfold sum.case)
      ultimately show ?thesis by simp
    qed
  qed
qed

lemma references_ok_delete:
  assumes "references_ok db"
  shows "references_ok (fst (snd (delete_prompt_template k tid (db, cat))))"
  using assms references_ok_delete_template [OF assms, of tid]
  by (simp add: delete_prompt_template_def split: option.splits sum.splits)

text \<open>
  The foreign key is an invariant of the tools: it holds in the empty store and every
  tool keeps it, whether the call succeeds or not.
\<close>

lemma references_ok_invariant:
  "references_ok empty_db"
  "references_ok db \<Longrightarrow>
   references_ok (fst (snd (save_prompt_template k uuid now name description body (db, cat))))"
  "references_ok db \<Longrightarrow>
   references_ok
     (fst (snd (update_prompt_template k uuid now tid rename description template (db, cat))))"
  "references_ok db \<Longrightarrow> references_ok (fst (snd (delete_prompt_template k tid (db, cat))))"
  by (simp_all add: references_ok_save references_ok_update references_ok_delete)
     (simp add: references_ok_def empty_db_def)

text \<open>
  Claim C4. \<open>get_prompt_by_name\<close> computes the missing required names as exactly the
  names of the template's input rows with \<open>required = true\<close> whose supplied value is
  absent or the empty string, and answers with the diagnostic when that list is not
  empty. The source tests \<^verbatim>\<open>!inputs[input.name]\<close>, a property read that also finds
  what every object inherits. The first conjunct says what the source computes: a
  required name is missing when its own value is the empty string, or when it has no
  own value and is not an inherited name. The remaining conjuncts run the source where
  the two differ: the template \<open>{constructor}\<close>, saved through \<open>save_prompt_template\<close>,
  has the required input \<open>constructor\<close>; a request without inputs supplies no value
  for it, yet nothing is reported missing and the unrendered body is returned as a
  success.
\<close>

theorem missing_check_reads_inherited_names:
  "missingInputs rows inputs
     = map i_name
         (filter (\<lambda>i. i_required i
                      \<and> (case map_of inputs (i_name i) of
                           Some v \<Rightarrow> v = []
                         | None \<Rightarrow> i_name i \<notin> set object_prototype_names)) rows)
   \<and> fst (snd (save_prompt_template never_throws sample_uuid ''2025-01-01 00:00:00''
               ''ctor'' None ''{constructor}'' (empty_db, []))) = ctor_db
   \<and> map (\<lambda>i. (i_name i, i_required i)) (select_inputs ctor_db ''u0'')
       = [(''constructor'', True)]
   \<and> map_of ([] :: js_record) ''constructor'' = None
   \<and> missingInputs (select_inputs ctor_db ''u0'') [] = []
   \<and> get_prompt_by_name ''ctor'' None ctor_db = Some (ok_result ''{constructor}'')"
proof -
  have truthy_eq: "(\<not> truthy (get_property inputs n))
        = (case map_of inputs n of Some v \<Rightarrow> v = [] | None \<Rightarrow> n \<notin> set object_prototype_names)"
    for n
    by (simp add: get_property_def split: option.splits)
  have a: "missingInputs rows inputs
     = map i_name
         (filter (\<lambda>i. i_required i
                      \<and> (case map_of inputs (i_name i) of
                           Some v \<Rightarrow> v = []
                         | None \<Rightarrow> i_name i \<notin> set object_prototype_names)) rows)"
    by (simp only: missingInputs_def truthy_eq)
  have e: "extractInputs ''{constructor}'' = [''constructor'']" by code_simp
  have s0: "show_nat 0 = ''0''" "show_nat (Suc 0) = ''1''" by code_simp+
  have b: "fst (snd (save_prompt_template never_throws sample_uuid ''2025-01-01 00:00:00''
               ''ctor'' None ''{constructor}'' (empty_db, []))) = ctor_db"
    by (simp add: save_prompt_template_def e s0 sample_defs insert_template_def insert_inputs_def
        new_inputs_def server_prompt_def Let_def)
  have c: "map (\<lambda>i. (i_name i, i_required i)) (select_inputs ctor_db ''u0'')
       = [(''constructor'', True)]"
    by (simp add: sample_defs select_inputs_def)
  have m: "missingInputs (select_inputs ctor_db ''u0'') [] = []"
    by (simp add: sample_defs tool_defs)
  have g: "get_prompt_by_name ''ctor'' None ctor_db = Some (ok_result ''{constructor}'')"
    by (simp add: sample_defs render_defs tool_defs)
  from a b c m g show ?thesis by simp
qed

text \<open>
  Claim C5. After every successful save, and after every successful update that supplies
  a body, the input rows stored for the template are exactly the distinct placeholder
  names extracted from its current body, in that order; an update that supplies no body
  leaves the input rows unchanged. For the save, the store respects the foreign key of
  the schema (\<open>references_ok\<close>, an invariant of the tools): every input row refers to a
  stored template.
\<close>

theorem inputs_follow_body:
  "(references_ok db
     \<and> \<not> r_isError (fst (save_prompt_template k uuid now name description body (db, cat)))
    \<longrightarrow> map i_name
          (select_inputs
             (fst (snd (save_prompt_template k uuid now name description body (db, cat))))
             (uuid 0))
        = extractInputs body
      \<and> map t_template
          (filter (\<lambda>t. t_id t = uuid 0)
             (promptTemplates
                (fst (snd (save_prompt_template k uuid now name description body (db, cat))))))
        = [body])
   \<and> (\<not> r_isError
          (fst (update_prompt_template k uuid now tid rename description (Some body) (db, cat)))
    \<longrightarrow> map i_name
          (select_inputs
             (fst (snd (update_prompt_template k uuid now tid rename description (Some body)
                          (db, cat))))
             tid)
        = extractInputs body
      \<and> (\<forall>t \<in> set (promptTemplates
                      (fst (snd (update_prompt_template k uuid now tid rename description
                                   (Some body) (db, cat))))).
            t_id t = tid \<longrightarrow> t_template t = body)
      \<and> tid \<in> set (map t_id
                     (promptTemplates
                        (fst (snd (update_prompt_template k uuid now tid rename description
                                     (Some body) (db, cat)))))))
   \<and> promptInputs
       (fst (snd (update_prompt_template k uuid now tid rename description None (db, cat))))
     = promptInputs db"
proof -
  let ?s = "save_prompt_template k uuid now name description body (db, cat)"
  let ?u = "update_prompt_template k uuid now tid rename description (Some body) (db, cat)"
  have s: "?s = (fst ?s, fst (snd ?s), snd (snd ?s))" by simp
  have u: "?u = (fst ?u, fst (snd ?u), snd (snd ?u))" by simp
  have ri: "\<forall>i \<in> set (promptInputs db). i_templateId i \<in> set (map t_id (promptTemplates db))"
    if "references_ok db"
    using that by (simp add: references_ok_def list_all_iff)
  note a = save_inputs [OF ri s]
  note b = update_body_inputs [OF u]
  note c = update_no_body_inputs [of k uuid now tid rename description db cat]
  from a b c show ?thesis by blast
qed

theorem inputs_follow_body_witness:
  "references_ok empty_db
   \<and> \<not> r_isError (fst (save_prompt_template never_throws sample_uuid ''2025-01-02 00:00:00''
                         ''x'' None ''{x}'' (empty_db, [])))
   \<and> map i_name
       (select_inputs
          (fst (snd (save_prompt_template never_throws sample_uuid ''2025-01-02 00:00:00''
                       ''x'' None ''{x}'' (empty_db, []))))
          (sample_uuid 0))
     = extractInputs ''{x}''
   \<and> \<not> r_isError (fst (update_prompt_template never_throws sample_uuid ''2025-01-02 00:00:00''
                         ''t1'' None None (Some ''{y}'') (sample_db, [])))
   \<and> map i_name
       (select_inputs
          (fst (snd (update_prompt_template never_throws sample_uuid ''2025-01-02 00:00:00''
                       ''t1'' None None (Some ''{y}'') (sample_db, []))))
          ''t1'')
     = extractInputs ''{y}''
   \<and> extractInputs ''{y}'' = [''y'']"
proof -
  have ex: "extractInputs ''{x}'' = [''x'']" by code_simp
  have ey: "extractInputs ''{y}'' = [''y'']" by code_simp
  have s0: "show_nat 0 = ''0''" "show_nat (Suc 0) = ''1''" by code_simp+
  have h1: "references_ok empty_db"
    by (simp add: references_ok_def empty_db_def)
  have h2: "\<not> r_isError (fst (save_prompt_template never_throws sample_uuid
                         ''2025-01-02 00:00:00'' ''x'' None ''{x}'' (empty_db, [])))"
    by (simp add: save_prompt_template_def ex s0 sample_defs insert_template_def
        insert_inputs_def new_inputs_def server_prompt_def ok_result_def Let_def)
  have h3: "\<not> r_isError (fst (update_prompt_template never_throws sample_uuid
                         ''2025-01-02 00:00:00'' ''t1'' None None (Some ''{y}'') (sample_db, [])))"
    by (simp add: update_prompt_template_def replace_inputs_def ey s0 sample_defs
        select_template_by_id_def insert_inputs_def new_inputs_def delete_inputs_def
        update_template_def server_prompt_def ok_result_def Let_def
        del: set_filter)
  note t = inputs_follow_body [where db = empty_db and k = never_throws and uuid = sample_uuid
      and now = "''2025-01-02 00:00:00''" and name = "''x''" and description = None
      and body = "''{x}''" and cat = "[]"]
  note t' = inputs_follow_body [where db = sample_db and k = never_throws and uuid = sample_uuid
      and now = "''2025-01-02 00:00:00''" and rename = None and description = None
      and body = "''{y}''" and cat = "[]" and tid = "''t1''"]
  from t h1 h2 have c1: "map i_name
       (select_inputs
          (fst (snd (save_prompt_template never_throws sample_uuid ''2025-01-02 00:00:00''
                       ''x'' None ''{x}'' (empty_db, []))))
          (sample_uuid 0))
     = extractInputs ''{x}''"
    by blast
  from t' h3 have c2: "map i_name
       (select_inputs
          (fst (snd (update_prompt_template never_throws sample_uuid ''2025-01-02 00:00:00''
                       ''t1'' None None (Some ''{y}'') (sample_db, []))))
          ''t1'')
     = extractInputs ''{y}''"
    by blast
  from h1 h2 h3 c1 c2 ey show ?thesis by blast
qed

text \<open>
  Claim C6. Every successful update of a template refreshes its \<open>updatedAt\<close> timestamp.
  The source writes only the name, the description and the template text, and the schema
  gives \<open>updated_at\<close> a default for inserts only: no update changes the column. The
  first conjunct says so for every call; the others run a successful rename on the
  sample store at a later time.
\<close>

theorem update_keeps_updatedAt:
  "map t_updatedAt
     (promptTemplates
        (fst (snd (update_prompt_template k uuid now tid name description template (db, cat)))))
   = map t_updatedAt (promptTemplates db)
   \<and> \<not> r_isError (fst (update_prompt_template never_throws sample_uuid ''2025-06-30 12:00:00''
                         ''t1'' (Some ''hello'') None None (sample_db, [])))
   \<and> map (\<lambda>t. (t_id t, t_name t, t_updatedAt t))
        (promptTemplates
           (fst (snd (update_prompt_template never_throws sample_uuid ''2025-06-30 12:00:00''
                        ''t1'' (Some ''hello'') None None (sample_db, [])))))
     = [(''t1'', ''hello'', ''2025-01-01 00:00:00'')]"
proof -
  have b: "\<not> r_isError (fst (update_prompt_template never_throws sample_uuid
                         ''2025-06-30 12:00:00'' ''t1'' (Some ''hello'') None None
                         (sample_db, [])))"
    by (simp add: update_prompt_template_def sample_defs select_template_by_id_def
        server_prompt_def ok_result_def Let_def)
  have c: "map (\<lambda>t. (t_id t, t_name t, t_updatedAt t))
        (promptTemplates
           (fst (snd (update_prompt_template never_throws sample_uuid ''2025-06-30 12:00:00''
                        ''t1'' (Some ''hello'') None None (sample_db, [])))))
     = [(''t1'', ''hello'', ''2025-01-01 00:00:00'')]"
    by (simp add: update_prompt_template_def sample_defs select_template_by_id_def
        server_prompt_def update_template_def apply_update_def Let_def)
  from update_keeps_updatedAt_general [of k uuid now tid name description template db cat] b c
  show ?thesis by blast
qed

text \<open>
  Claim C8. For every update or delete request whose template id is not in the store,
  the operation returns a not-found result that names the id and carries the error flag,
  and leaves the templates, the inputs and the catalog unchanged.
\<close>

theorem unknown_id_not_found:
  "tid \<notin> set (map t_id (promptTemplates db)) \<Longrightarrow>
   update_prompt_template k uuid now tid name description template (db, cat)
     = (not_found_id tid, db, cat)
   \<and> delete_prompt_template k tid (db, cat) = (not_found_id tid, db, cat)
   \<and> r_isError (not_found_id tid)
   \<and> r_text (not_found_id tid) = ''Template with ID '' @ quoted tid @ '' not found''"
  by (simp add: update_prompt_template_def delete_prompt_template_def
      select_template_by_id_None not_found_id_def error_result_def)

theorem unknown_id_not_found_witness:
  "''zz'' \<notin> set (map t_id (promptTemplates sample_db))
   \<and> update_prompt_template never_throws sample_uuid ''2025-01-02 00:00:00'' ''zz''
        (Some ''n'') None (Some ''{b}'') (sample_db, [])
     = (not_found_id ''zz'', sample_db, [])
   \<and> delete_prompt_template never_throws ''zz'' (sample_db, []) = (not_found_id ''zz'', sample_db, [])
   \<and> r_isError (not_found_id ''zz'')"
proof -
  have h: "''zz'' \<notin> set (map t_id (promptTemplates sample_db))"
    by (simp add: sample_db_def sample_template_def)
  from unknown_id_not_found [OF h] h show ?thesis by blast
qed

text \<open>
  Claim C9. After a successful delete of a template no input row refers to its id, the
  template's name is no longer registered in the catalog, and, when the name was unique
  among the stored templates, a following \<open>get_prompt_by_name\<close> for that name answers
  not found.
\<close>

theorem delete_cascades:
  assumes "\<not> r_isError (fst (delete_prompt_template k tid (db, cat)))"
  shows "select_inputs (fst (snd (delete_prompt_template k tid (db, cat)))) tid = []
     \<and> tid \<notin> set (map t_id (promptTemplates (fst (snd (delete_prompt_template k tid (db, cat))))))
     \<and> (\<exists>existing. select_template_by_id db tid = Some existing
          \<and> t_name existing \<notin> set (map fst (snd (snd (delete_prompt_template k tid (db, cat)))))
          \<and> (length (filter (\<lambda>t. t_name t = t_name existing) (promptTemplates db)) \<le> 1
               \<longrightarrow> get_prompt_by_name (t_name existing) inputs
                      (fst (snd (delete_prompt_template k tid (db, cat))))
                    = Some (not_found_name (t_name existing))))"
proof -
  let ?d = "delete_prompt_template k tid (db, cat)"
  have d: "?d = (fst ?d, fst (snd ?d), snd (snd ?d))" by simp
  from delete_cascade [OF d assms] show ?thesis .
qed

theorem delete_cascades_witness:
  "\<not> r_isError (fst (delete_prompt_template never_throws ''t1''
        (sample_db, fst (loadAndRegisterPrompts never_throws sample_db []))))
   \<and> select_inputs (fst (snd (delete_prompt_template never_throws ''t1''
        (sample_db, fst (loadAndRegisterPrompts never_throws sample_db []))))) ''t1'' = []
   \<and> select_template_by_id sample_db ''t1'' = Some (sample_template ''t1'' ''greet'' ''{a}'')
   \<and> ''greet'' \<in> set (map fst (fst (loadAndRegisterPrompts never_throws sample_db [])))
   \<and> ''greet'' \<notin> set (map fst (snd (snd (delete_prompt_template never_throws ''t1''
        (sample_db, fst (loadAndRegisterPrompts never_throws sample_db []))))))
   \<and> length (filter (\<lambda>t. t_name t = ''greet'') (promptTemplates sample_db)) \<le> 1
   \<and> get_prompt_by_name ''greet'' (Some [(''a'', ''Ada'')])
        (fst (snd (delete_prompt_template never_throws ''t1''
           (sample_db, fst (loadAndRegisterPrompts never_throws sample_db [])))))
     = Some (not_found_name ''greet'')"
proof -
  let ?cat = "fst (loadAndRegisterPrompts never_throws sample_db [])"
  let ?d = "delete_prompt_template never_throws ''t1'' (sample_db, ?cat)"
  have sel: "select_template_by_id sample_db ''t1'' = Some (sample_template ''t1'' ''greet'' ''{a}'')"
    by (simp add: select_template_by_id_def sample_defs)
  have h: "\<not> r_isError (fst ?d)"
    by (simp add: delete_prompt_template_def sel server_removePrompt_def never_throws_def
        ok_result_def)
  have reg: "''greet'' \<in> set (map fst ?cat)"
    by (simp add: loadAndRegisterPrompts_def sample_defs server_prompt_def)
  have u: "length (filter (\<lambda>t. t_name t = ''greet'') (promptTemplates sample_db)) \<le> 1"
    by (simp add: sample_defs)
  have n: "t_name (sample_template ''t1'' ''greet'' ''{a}'') = ''greet''"
    by (simp add: sample_template_def)
  from delete_cascades [OF h, of "Some [(''a'', ''Ada'')]"] sel
  have c: "select_inputs (fst (snd ?d)) ''t1'' = []
     \<and> t_name (sample_template ''t1'' ''greet'' ''{a}'') \<notin> set (map fst (snd (snd ?d)))
     \<and> (length (filter (\<lambda>t. t_name t = t_name (sample_template ''t1'' ''greet'' ''{a}''))
                  (promptTemplates sample_db)) \<le> 1
               \<longrightarrow> get_prompt_by_name (t_name (sample_template ''t1'' ''greet'' ''{a}''))
                      (Some [(''a'', ''Ada'')]) (fst (snd ?d))
                    = Some (not_found_name (t_name (sample_template ''t1'' ''greet'' ''{a}''))))"
    by auto
  from c u h sel reg show ?thesis unfolding n by blast
qed

end
